theory Spec2Isabelle
  imports Main
begin

section \<open>Strings and paths\<close>

text \<open>
  The program is \<^verbatim>\<open>shot.py\<close>: a batch transcription pipeline around two external
  collaborators, a speech recogniser and the \<^verbatim>\<open>ffmpeg\<close> command. A Python string is
  modelled as the \<^typ>\<open>string\<close> of its UTF-8 bytes, so a character is ASCII when its
  top bit is clear, and \<^verbatim>\<open>/\<close> and \<^verbatim>\<open>.\<close> never occur inside the bytes of another
  code point.

  \<open>lower\<close> and \<open>upper\<close> change the case of the ASCII letters and leave every other
  byte alone. \<^verbatim>\<open>str.upper\<close> is exactly \<open>upper\<close> on ASCII text, and the program calls it
  on the extensions of its two lists only. \<^verbatim>\<open>str.lower\<close> is exactly \<open>lower\<close> on ASCII
  text too, but the program calls it on the suffix of any path, where it follows the
  Unicode tables (U+212A, the Kelvin sign, becomes \<^verbatim>\<open>k\<close>): there it is a parameter of the
  model, \<open>str_lower\<close> below, and \<open>lower\<close> is what it is compared with.
\<close>

definition is_ascii :: "char \<Rightarrow> bool" where
  "is_ascii c = (\<not> digit7 c)"

definition lower_char :: "char \<Rightarrow> char" where
  "lower_char c =
     (case map_of (zip ''ABCDEFGHIJKLMNOPQRSTUVWXYZ'' ''abcdefghijklmnopqrstuvwxyz'') c of
        Some d \<Rightarrow> d
      | None \<Rightarrow> c)"

definition upper_char :: "char \<Rightarrow> char" where
  "upper_char c =
     (case map_of (zip ''abcdefghijklmnopqrstuvwxyz'' ''ABCDEFGHIJKLMNOPQRSTUVWXYZ'') c of
        Some d \<Rightarrow> d
      | None \<Rightarrow> c)"

definition lower :: "string \<Rightarrow> string" where
  "lower s = map lower_char s"

definition upper :: "string \<Rightarrow> string" where
  "upper s = map upper_char s"

text \<open>\<^verbatim>\<open>s.endswith(t)\<close>.\<close>

definition endswith :: "string \<Rightarrow> string \<Rightarrow> bool" where
  "endswith s t = (length t \<le> length s \<and> drop (length s - length t) s = t)"

text \<open>\<^verbatim>\<open>s.split(c)\<close> for a one-character separator: never an empty list.\<close>

fun split_sep :: "char \<Rightarrow> string \<Rightarrow> string list" where
  "split_sep c [] = [[]]"
| "split_sep c (x # xs) =
     (if x = c then [] # split_sep c xs
      else (case split_sep c xs of
              [] \<Rightarrow> [[x]]
            | p # ps \<Rightarrow> (x # p) # ps))"

text \<open>\<^verbatim>\<open>sep.join(xs)\<close>.\<close>

fun join :: "string \<Rightarrow> string list \<Rightarrow> string" where
  "join sep [] = []"
| "join sep [x] = x"
| "join sep (x # y # ys) = x @ sep @ join sep (y # ys)"

text \<open>
  \<^verbatim>\<open>s.rfind(c)\<close>: the index of the last occurrence of \<open>c\<close>, or \<open>-1\<close>. The helper scans
  from the left and remembers the last index seen.
\<close>

fun rfind_from :: "string \<Rightarrow> char \<Rightarrow> int \<Rightarrow> int \<Rightarrow> int" where
  "rfind_from [] c i found = found"
| "rfind_from (x # xs) c i found = rfind_from xs c (i + 1) (if x = c then i else found)"

definition rfind :: "string \<Rightarrow> char \<Rightarrow> int" where
  "rfind s c = rfind_from s c 0 (- 1)"

text \<open>
  \<^verbatim>\<open>pathlib.Path\<close> on a POSIX system. A path is a root (\<^verbatim>\<open>""\<close>, \<^verbatim>\<open>"/"\<close> or \<^verbatim>\<open>"//"\<close>) and
  its components; parsing drops empty components and \<^verbatim>\<open>"."\<close>. \<^verbatim>\<open>Path.name\<close> is the last
  component, \<^verbatim>\<open>Path.suffix\<close> the part of the name from its last dot on, when that dot is
  neither the first nor the last character of the name.
\<close>

datatype ppath = PPath (root: string) (parts: "string list")

definition parse_root :: "string \<Rightarrow> string" where
  "parse_root s =
     (if take 2 s = ''//'' \<and> take 3 s \<noteq> ''///'' then ''//''
      else if take 1 s = ''/'' then ''/''
      else [])"

definition Path :: "string \<Rightarrow> ppath" where
  "Path s = PPath (parse_root s) (filter (\<lambda>c. c \<noteq> [] \<and> c \<noteq> ''.'') (split_sep (CHR ''/'') s))"

definition path_str :: "ppath \<Rightarrow> string" where
  "path_str p =
     (if root p = [] \<and> parts p = [] then ''.'' else root p @ join ''/'' (parts p))"

definition path_name :: "ppath \<Rightarrow> string" where
  "path_name p = (if parts p = [] then [] else last (parts p))"

definition path_suffix :: "ppath \<Rightarrow> string" where
  "path_suffix p =
     (let name = path_name p; i = rfind name (CHR ''.'')
      in if 0 < i \<and> i < int (length name) - 1 then drop (nat i) name else [])"

text \<open>\<^verbatim>\<open>p / n\<close> for a single component \<open>n\<close>, as the directory scan builds it.\<close>

definition path_child :: "ppath \<Rightarrow> string \<Rightarrow> ppath" where
  "path_child p n = PPath (root p) (parts p @ [n])"

text \<open>
  \<^verbatim>\<open>fnmatch\<close> on one name, case-sensitive as on POSIX: \<^verbatim>\<open>*\<close> stands for any run of
  characters, \<^verbatim>\<open>?\<close> for one character, every other character for itself. The first
  argument is the pattern.
\<close>

fun fnmatch :: "string \<Rightarrow> string \<Rightarrow> bool" where
  "fnmatch [] [] = True"
| "fnmatch [] (c # cs) = False"
| "fnmatch (p # ps) [] = (p = CHR ''*'' \<and> fnmatch ps [])"
| "fnmatch (p # ps) (c # cs) =
     (if p = CHR ''*'' then fnmatch ps (c # cs) \<or> fnmatch (p # ps) cs
      else (p = CHR ''?'' \<or> p = c) \<and> fnmatch ps cs)"

section \<open>The world and the external collaborators\<close>

text \<open>
  An exception is kept as the text \<^verbatim>\<open>str(e)\<close> gives for it, which is all the program
  reads of it. Every exception modelled is a subclass of \<^verbatim>\<open>Exception\<close>.
\<close>

datatype exn = Exn string

fun str :: "exn \<Rightarrow> string" where
  "str (Exn m) = m"

text \<open>The calls the program makes to the outside, in the order it makes them.\<close>

datatype event =
    LoadModel string
  | RunCommand "string list"
  | TranscribeCall string "string option"
  | UnlinkCall string

text \<open>
  The state the program acts on: the files on disk with their contents, the entries of
  each directory in the order the scan yields them, how many candidate names the temporary
  file module has drawn, and the calls made so far.
\<close>

record world =
  disk :: "string \<rightharpoonup> string"
  listing :: "string \<Rightarrow> string list"
  names_used :: nat
  trace :: "event list"

text \<open>
  The collaborators are parameters. \<open>load_model\<close> is \<^verbatim>\<open>whisper.load_model\<close>;
  \<open>model_transcribe\<close> is \<^verbatim>\<open>model.transcribe(path, language=hint)["text"]\<close>, which reads
  the disk and changes nothing on it; \<open>subprocess_run\<close> is \<^verbatim>\<open>subprocess.run\<close> on the
  \<^verbatim>\<open>ffmpeg\<close> command line: it either fails to start, or completes with a return code and
  leaves the output file (the last word of the command line) absent or with some content.
  \<open>random_names\<close> is the sequence of candidate names of the \<^verbatim>\<open>tempfile\<close> module and
  \<open>tempdir\<close> is \<^verbatim>\<open>tempfile.gettempdir()\<close>; \<open>tmp_max\<close> is \<^verbatim>\<open>tempfile.TMP_MAX\<close>, which
  is \<^verbatim>\<open>os.TMP_MAX\<close> where the platform has one (238328 on Linux) and 10000 elsewhere.
  \<open>str_lower\<close> is \<^verbatim>\<open>str.lower\<close>, whose
  Unicode tables are not part of the program.
\<close>

record 'm env =
  load_model :: "string \<Rightarrow> exn + 'm"
  model_transcribe :: "'m \<Rightarrow> (string \<rightharpoonup> string) \<Rightarrow> string \<Rightarrow> string option \<Rightarrow> exn + string"
  subprocess_run :: "(string \<rightharpoonup> string) \<Rightarrow> string list \<Rightarrow> exn + int \<times> string option"
  random_names :: "nat \<Rightarrow> string"
  tempdir :: string
  tmp_max :: nat
  str_lower :: "string \<Rightarrow> string"

definition log_event :: "event \<Rightarrow> world \<Rightarrow> world" where
  "log_event e w = w\<lparr>trace := trace w @ [e]\<rparr>"

subsection \<open>Temporary files\<close>

text \<open>
  \<^verbatim>\<open>tempfile.NamedTemporaryFile(delete=False, suffix=suf)\<close>: candidate names are tried in
  turn, at most \<open>tmp_max\<close> of them, and the first one that does not exist is created
  exclusively, empty. The result is the name of the file.
\<close>

fun mkstemp_inner ::
  "(nat \<Rightarrow> string) \<Rightarrow> (string \<rightharpoonup> string) \<Rightarrow> string \<Rightarrow> string \<Rightarrow> string \<Rightarrow> nat \<Rightarrow> nat
     \<Rightarrow> (exn + string) \<times> nat" where
  "mkstemp_inner names d dir pre suf k 0 =
     (Inl (Exn ''[Errno 17] No usable temporary file name found''), k)"
| "mkstemp_inner names d dir pre suf k (Suc n) =
     (let file = dir @ ''/'' @ pre @ names k @ suf
      in if d file = None then (Inr file, Suc k)
         else mkstemp_inner names d dir pre suf (Suc k) n)"

definition NamedTemporaryFile :: "'m env \<Rightarrow> world \<Rightarrow> string \<Rightarrow> (exn + string) \<times> world" where
  "NamedTemporaryFile env w suf =
     (case mkstemp_inner (random_names env) (disk w) (tempdir env) ''tmp'' suf (names_used w) (tmp_max env) of
        (Inl e, k) \<Rightarrow> (Inl e, w\<lparr>names_used := k\<rparr>)
      | (Inr file, k) \<Rightarrow> (Inr file, w\<lparr>disk := (disk w)(file \<mapsto> []), names_used := k\<rparr>))"

text \<open>
  \<^verbatim>\<open>os.unlink(p)\<close>: removes the file, or raises when there is none. The text of the
  exception ends in the path between single quotes, as \<^verbatim>\<open>repr\<close> writes a path that needs
  no escape.
\<close>

definition os_unlink :: "world \<Rightarrow> string \<Rightarrow> (exn + unit) \<times> world" where
  "os_unlink w p =
     (let w1 = log_event (UnlinkCall p) w
      in if disk w1 p = None
         then (Inl (Exn (''[Errno 2] No such file or directory: '' @ [CHR 0x27] @ p @ [CHR 0x27])), w1)
         else (Inr (), w1\<lparr>disk := (disk w1)(p := None)\<rparr>))"

section \<open>The program\<close>

definition WHISPER_MODELS :: "string list" where
  "WHISPER_MODELS = [''tiny'', ''base'', ''small'', ''medium'', ''large'', ''large-v2'', ''large-v3'']"

definition video_exts :: "string list" where
  "video_exts = [''.mp4'', ''.avi'', ''.mov'', ''.mkv'', ''.flv'', ''.wmv'']"

definition audio_exts :: "string list" where
  "audio_exts = [''.mp3'', ''.wav'', ''.ogg'', ''.aac'', ''.flac'', ''.m4a'', ''.wma'']"

definition all_exts :: "string list" where
  "all_exts = audio_exts @ video_exts"

text \<open>
  \<^verbatim>\<open>extract_audio(video_path)\<close>: a temporary \<^verbatim>\<open>.wav\<close> file is created, the command is
  run on it, and its name is returned. The completed process is dropped unread.
\<close>

definition ffmpeg_cmd :: "string \<Rightarrow> string \<Rightarrow> string list" where
  "ffmpeg_cmd video_path temp_audio =
     [''ffmpeg'', ''-i'', video_path,
      ''-vn'', ''-acodec'', ''pcm_s16le'',
      ''-ar'', ''16000'', ''-ac'', ''1'',
      ''-y'', temp_audio]"

definition extract_audio :: "'m env \<Rightarrow> world \<Rightarrow> string \<Rightarrow> (exn + string) \<times> world" where
  "extract_audio env w video_path =
     (case NamedTemporaryFile env w ''.wav'' of
        (Inl e, w1) \<Rightarrow> (Inl e, w1)
      | (Inr temp_audio, w1) \<Rightarrow>
          (let cmd = ffmpeg_cmd video_path temp_audio;
               w2 = log_event (RunCommand cmd) w1
           in case subprocess_run env (disk w2) cmd of
                Inl e \<Rightarrow> (Inl e, w2)
              | Inr (returncode, out) \<Rightarrow> (Inr temp_audio, w2\<lparr>disk := (disk w2)(temp_audio := out)\<rparr>)))"

text \<open>The test \<^verbatim>\<open>Path(file_path).suffix.lower() in video_exts\<close>.\<close>

definition is_video :: "'m env \<Rightarrow> string \<Rightarrow> bool" where
  "is_video env file_path = (str_lower env (path_suffix (Path file_path)) \<in> set video_exts)"

text \<open>
  \<^verbatim>\<open>transcribe_file(file_path, model_name, language)\<close>. An exception leaves the function at
  the call that raised it, with the world as it was then.
\<close>

definition transcribe_file ::
  "'m env \<Rightarrow> world \<Rightarrow> string \<Rightarrow> string \<Rightarrow> string \<Rightarrow> (exn + string) \<times> world" where
  "transcribe_file env w file_path model_name language =
     (let w0 = log_event (LoadModel model_name) w
      in case load_model env model_name of
           Inl e \<Rightarrow> (Inl e, w0)
         | Inr model \<Rightarrow>
             (case (if is_video env file_path then extract_audio env w0 file_path
                    else (Inr file_path, w0)) of
                (Inl e, w1) \<Rightarrow> (Inl e, w1)
              | (Inr audio_path, w1) \<Rightarrow>
                  (let lang = (if language = ''auto'' then None else Some language);
                       w2 = log_event (TranscribeCall audio_path lang) w1
                   in case model_transcribe env model (disk w2) audio_path lang of
                        Inl e \<Rightarrow> (Inl e, w2)
                      | Inr text \<Rightarrow>
                          (if audio_path \<noteq> file_path
                           then (case os_unlink w2 audio_path of
                                   (Inl e, w3) \<Rightarrow> (Inl e, w3)
                                 | (Inr u, w3) \<Rightarrow> (Inr text, w3))
                           else (Inr text, w2)))))"

text \<open>
  The loop of \<^verbatim>\<open>process_files\<close> and of \<^verbatim>\<open>process_folder\<close> is the same code. An item
  is the path handed to \<^verbatim>\<open>transcribe_file\<close> and the name shown in the header; \<open>results\<close>
  is the list the loop appends to.
\<close>

fun transcribe_items ::
  "'m env \<Rightarrow> string \<Rightarrow> string \<Rightarrow> (string \<times> string) list \<Rightarrow> string list \<Rightarrow> world
     \<Rightarrow> string list \<times> world" where
  "transcribe_items env model_name language [] results w = (results, w)"
| "transcribe_items env model_name language ((file_path, shown) # rest) results w =
     (case transcribe_file env w file_path model_name language of
        (Inr text, w') \<Rightarrow>
          transcribe_items env model_name language rest
            (results @ [''=== '' @ shown @ '' ===\<newline>'' @ text @ ''\<newline>'']) w'
      | (Inl e, w') \<Rightarrow>
          transcribe_items env model_name language rest
            (results @ [''=== '' @ shown @ '' ===\<newline>Error: '' @ str e @ ''\<newline>'']) w')"

text \<open>
  The end of both functions: the report is written to a new temporary \<^verbatim>\<open>.txt\<close> file, and
  the text and the name of the file are returned.
\<close>

definition save_report ::
  "'m env \<Rightarrow> world \<Rightarrow> string \<Rightarrow> (exn + string \<times> string option) \<times> world" where
  "save_report env w full_text =
     (case NamedTemporaryFile env w ''.txt'' of
        (Inl e, w1) \<Rightarrow> (Inl e, w1)
      | (Inr temp_output, w1) \<Rightarrow>
          (Inr (full_text, Some temp_output), w1\<lparr>disk := (disk w1)(temp_output \<mapsto> full_text)\<rparr>))"

text \<open>An uploaded file, of which the program reads \<^verbatim>\<open>file.name\<close>.\<close>

datatype upload = Upload (upload_name: string)

definition process_files ::
  "'m env \<Rightarrow> world \<Rightarrow> upload list \<Rightarrow> string \<Rightarrow> string
     \<Rightarrow> (exn + string \<times> string option) \<times> world" where
  "process_files env w files model_name language =
     (if files = [] then (Inr (''No files uploaded'', None), w)
      else (case transcribe_items env model_name language
                   (map (\<lambda>file. (upload_name file, path_name (Path (upload_name file)))) files) [] w of
              (results, w1) \<Rightarrow> save_report env w1 (join ''\<newline>'' results)))"

text \<open>
  \<^verbatim>\<open>Path(folder).glob(pattern)\<close> for a pattern of one component: the entries of the
  directory whose names match, in the order of the scan.
\<close>

definition glob :: "world \<Rightarrow> ppath \<Rightarrow> string \<Rightarrow> ppath list" where
  "glob w p pattern = map (path_child p) (filter (fnmatch pattern) (listing w (path_str p)))"

definition folder_files :: "world \<Rightarrow> string \<Rightarrow> ppath list" where
  "folder_files w folder_path =
     concat (map (\<lambda>ext. glob w (Path folder_path) (''*'' @ ext)
                        @ glob w (Path folder_path) (''*'' @ upper ext)) all_exts)"

definition process_folder ::
  "'m env \<Rightarrow> world \<Rightarrow> string \<Rightarrow> string \<Rightarrow> string
     \<Rightarrow> (exn + string \<times> string option) \<times> world" where
  "process_folder env w folder_path model_name language =
     (if folder_path = [] then (Inr (''No folder selected'', None), w)
      else (let files = folder_files w folder_path
            in if files = [] then (Inr (''No audio/video files found in folder'', None), w)
               else (case transcribe_items env model_name language
                            (map (\<lambda>file_path. (path_str file_path, path_name file_path)) files) [] w of
                       (results, w1) \<Rightarrow> save_report env w1 (join ''\<newline>'' results))))"

section \<open>Results and the report, as the specification names them\<close>

text \<open>
  A result is the name shown for an item and either the text or the exception of its
  transcription. \<open>render_result\<close> is the entry of the report for one result: the header
  line, then the text or \<^verbatim>\<open>Error: \<close> and the description, then a line end.
  \<open>item_results\<close> runs the items one after the other, each in the world the one before
  left.
\<close>

definition render_result :: "string \<Rightarrow> exn + string \<Rightarrow> string" where
  "render_result shown r =
     ''=== '' @ shown @ '' ===\<newline>'' @ (case r of Inr text \<Rightarrow> text | Inl e \<Rightarrow> ''Error: '' @ str e) @ ''\<newline>''"

fun item_results ::
  "'m env \<Rightarrow> string \<Rightarrow> string \<Rightarrow> (string \<times> string) list \<Rightarrow> world \<Rightarrow> (string \<times> (exn + string)) list" where
  "item_results env model_name language [] w = []"
| "item_results env model_name language ((file_path, shown) # rest) w =
     (case transcribe_file env w file_path model_name language of
        (r, w') \<Rightarrow> (shown, r) # item_results env model_name language rest w')"

section \<open>A concrete environment\<close>

text \<open>
  An environment and a world to run the program in. The recogniser knows the models of
  \<open>WHISPER_MODELS\<close> and returns the content of the file it is given, raising on a
  missing or empty file; the command copies the content of its input (the third word of
  the command line) to its output with return code 0, and leaves an empty output with
  return code 1 when the input is missing. Lowering is \<open>lower\<close> on the ASCII letters
  and takes the three bytes of the Kelvin sign to \<^verbatim>\<open>k\<close>.
\<close>

fun demo_str_lower :: "string \<Rightarrow> string" where
  "demo_str_lower [] = []"
| "demo_str_lower (c # cs) =
     (if take 3 (c # cs) = [CHR 0xE2, CHR 0x84, CHR 0xAA] then CHR ''k'' # demo_str_lower (drop 2 cs)
      else lower_char c # demo_str_lower cs)"

definition demo_env :: "string env" where
  "demo_env =
     \<lparr>load_model = (\<lambda>model_name. if model_name \<in> set WHISPER_MODELS then Inr model_name
                                  else Inl (Exn ''unknown model'')),
      model_transcribe = (\<lambda>model d p hint.
         case d p of
           None \<Rightarrow> Inl (Exn ''no such file'')
         | Some c \<Rightarrow> if c = [] then Inl (Exn ''no audio'') else Inr c),
      subprocess_run = (\<lambda>d cmd.
         case drop 2 cmd of
           [] \<Rightarrow> Inr (2, Some [])
         | src # rest \<Rightarrow>
             (case d src of
                None \<Rightarrow> Inr (1, Some [])
              | Some c \<Rightarrow> Inr (0, Some c))),
      random_names = (\<lambda>k. replicate (Suc k) (CHR ''x'')),
      tempdir = ''/tmp'',
      tmp_max = 10000,
      str_lower = demo_str_lower\<rparr>"

text \<open>The same environment on a machine where the \<^verbatim>\<open>ffmpeg\<close> command cannot be started.\<close>

definition no_ffmpeg_env :: "string env" where
  "no_ffmpeg_env =
     demo_env\<lparr>subprocess_run :=
       (\<lambda>d cmd. Inl (Exn (''[Errno 2] No such file or directory: '' @ [CHR 0x27] @ ''ffmpeg'' @ [CHR 0x27])))\<rparr>"

definition demo_world :: world where
  "demo_world =
     \<lparr>disk = [''speech.wav'' \<mapsto> ''hello'', ''clip.mp4'' \<mapsto> ''words'', ''CLIP.MP4'' \<mapsto> ''WORDS'',
              ''silent.mp4'' \<mapsto> [], ''media/talk.Mp4'' \<mapsto> ''talk'', ''media/song.mp3'' \<mapsto> ''la la'',
              ''media/CLIP.MP4'' \<mapsto> ''LOUD WORDS''],
      listing = (\<lambda>d. if d = ''media'' then [''talk.Mp4'', ''song.mp3'', ''CLIP.MP4'']
                      else if d = ''docs'' then [''notes.txt'', ''mp3'']
                      else []),
      names_used = 0,
      trace = []\<rparr>"

section \<open>The loop over the items\<close>

lemma items_acc:
  "transcribe_items env m l items acc w =
     (acc @ fst (transcribe_items env m l items [] w), snd (transcribe_items env m l items [] w))"
proof (induction items arbitrary: acc w)
  case Nil
  show ?case by simp
next
  case (Cons it items)
  obtain p shown where it: "it = (p, shown)" by (cases it)
  obtain r w' where tf: "transcribe_file env w p m l = (r, w')" by (cases "transcribe_file env w p m l")
  show ?case
  proof (cases r)
    case (Inl e)
    show ?thesis
      using Cons.IH [of "acc @ [''=== '' @ shown @ '' ===\<newline>Error: '' @ str e @ ''\<newline>'']" w']
        Cons.IH [of "[''=== '' @ shown @ '' ===\<newline>Error: '' @ str e @ ''\<newline>'']" w']
      by (simp add: it tf Inl)
  next
    case (Inr t)
    show ?thesis
      using Cons.IH [of "acc @ [''=== '' @ shown @ '' ===\<newline>'' @ t @ ''\<newline>'']" w']
        Cons.IH [of "[''=== '' @ shown @ '' ===\<newline>'' @ t @ ''\<newline>'']" w']
      by (simp add: it tf Inr)
  qed
qed

lemma items_step:
  "transcribe_items env m l ((p, shown) # rest) [] w =
     (render_result shown (fst (transcribe_file env w p m l))
        # fst (transcribe_items env m l rest [] (snd (transcribe_file env w p m l))),
      snd (transcribe_items env m l rest [] (snd (transcribe_file env w p m l))))"
proof -
  obtain r w' where tf: "transcribe_file env w p m l = (r, w')" by (cases "transcribe_file env w p m l")
  show ?thesis
  proof (cases r)
    case (Inl e)
    show ?thesis
      using items_acc [of env m l rest "[''=== '' @ shown @ '' ===\<newline>Error: '' @ str e @ ''\<newline>'']" w']
      by (simp add: tf Inl render_result_def)
  next
    case (Inr t)
    show ?thesis
      using items_acc [of env m l rest "[''=== '' @ shown @ '' ===\<newline>'' @ t @ ''\<newline>'']" w']
      by (simp add: tf Inr render_result_def)
  qed
qed

lemma items_append:
  "transcribe_items env m l (xs @ ys) [] w =
     (fst (transcribe_items env m l xs [] w)
        @ fst (transcribe_items env m l ys [] (snd (transcribe_items env m l xs [] w))),
      snd (transcribe_items env m l ys [] (snd (transcribe_items env m l xs [] w))))"
proof (induction xs arbitrary: w)
  case Nil
  show ?case by simp
next
  case (Cons it xs)
  obtain p shown where it: "it = (p, shown)" by (cases it)
  show ?case
    unfolding it append_Cons items_step
    by (simp add: Cons.IH)
qed

lemma items_length: "length (fst (transcribe_items env m l items [] w)) = length items"
proof (induction items arbitrary: w)
  case Nil
  show ?case by simp
next
  case (Cons it items)
  obtain p shown where it: "it = (p, shown)" by (cases it)
  show ?case unfolding it items_step by (simp add: Cons.IH)
qed

lemma items_nth:
  assumes "i < length items"
  shows "fst (transcribe_items env m l items [] w) ! i =
           render_result (snd (items ! i))
             (fst (transcribe_file env (snd (transcribe_items env m l (take i items) [] w))
                     (fst (items ! i)) m l))"
proof -
  have split: "items = take i items @ (items ! i) # drop (Suc i) items"
    using assms by (simp add: id_take_nth_drop)
  obtain p shown where it: "items ! i = (p, shown)" by (cases "items ! i")
  have len: "length (fst (transcribe_items env m l (take i items) [] w)) = i"
    using assms by (simp add: items_length)
  have "fst (transcribe_items env m l (take i items @ (p, shown) # drop (Suc i) items) [] w) ! i =
          render_result shown (fst (transcribe_file env (snd (transcribe_items env m l (take i items) [] w)) p m l))"
    unfolding items_append items_step using len by (simp add: nth_append)
  then show ?thesis using split it by simp
qed

lemma items_results:
  "fst (transcribe_items env m l items [] w) =
     map (\<lambda>(shown, r). render_result shown r) (item_results env m l items w)"
proof (induction items arbitrary: w)
  case Nil
  show ?case by simp
next
  case (Cons it items)
  obtain p shown where it: "it = (p, shown)" by (cases it)
  obtain r w' where tf: "transcribe_file env w p m l = (r, w')" by (cases "transcribe_file env w p m l")
  show ?case unfolding it items_step by (simp add: tf Cons.IH)
qed

lemma item_results_names: "map fst (item_results env m l items w) = map snd items"
proof (induction items arbitrary: w)
  case Nil
  show ?case by simp
next
  case (Cons it items)
  obtain p shown where it: "it = (p, shown)" by (cases it)
  obtain r w' where tf: "transcribe_file env w p m l = (r, w')" by (cases "transcribe_file env w p m l")
  show ?case by (simp add: it tf Cons.IH)
qed

lemma join_blank: "xs \<noteq> [] \<Longrightarrow> join sep xs @ sep = concat (map (\<lambda>x. x @ sep) xs)"
  by (induction sep xs rule: join.induct) simp_all

section \<open>What one item does to the world\<close>

lemma mkstemp_inner_fresh:
  "mkstemp_inner names d dir pre suf k n = (Inr tmp, k') \<Longrightarrow> d tmp = None"
proof (induction n arbitrary: k)
  case 0
  then show ?case by simp
next
  case (Suc n)
  then show ?case by (auto simp: Let_def split: if_splits)
qed

lemma NamedTemporaryFile_Inr:
  assumes "NamedTemporaryFile env w suf = (Inr file, w1)"
  shows "disk w file = None" and "disk w1 = (disk w)(file \<mapsto> [])" and "trace w1 = trace w"
    and "listing w1 = listing w"
  using assms mkstemp_inner_fresh [where d = "disk w" and tmp = "file"]
  by (auto simp: NamedTemporaryFile_def split: prod.splits sum.splits)

lemma NamedTemporaryFile_Inl:
  assumes "NamedTemporaryFile env w suf = (Inl e, w1)"
  shows "disk w1 = disk w" and "trace w1 = trace w"
  using assms by (auto simp: NamedTemporaryFile_def split: prod.splits sum.splits)

lemma extract_audio_Inr:
  assumes "extract_audio env w p = (Inr tmp, w1)"
  shows "disk w tmp = None" and "\<exists>out. disk w1 = (disk w)(tmp := out)"
    and "trace w1 = trace w @ [RunCommand (ffmpeg_cmd p tmp)]"
    and "fst (NamedTemporaryFile env w ''.wav'') = Inr tmp"
proof -
  obtain r w0 where ntf: "NamedTemporaryFile env w ''.wav'' = (r, w0)"
    by (cases "NamedTemporaryFile env w ''.wav''")
  from assms ntf have r: "r = Inr tmp"
    by (auto simp: extract_audio_def Let_def split: sum.splits prod.splits)
  note f = NamedTemporaryFile_Inr [OF ntf [unfolded r]]
  show "disk w tmp = None" by (rule f(1))
  show "fst (NamedTemporaryFile env w ''.wav'') = Inr tmp" by (simp add: ntf r)
  show "trace w1 = trace w @ [RunCommand (ffmpeg_cmd p tmp)]"
    using assms f(3) by (auto simp: extract_audio_def ntf r Let_def log_event_def split: sum.splits)
  show "\<exists>out. disk w1 = (disk w)(tmp := out)"
    using assms f(2) by (auto simp: extract_audio_def ntf r Let_def log_event_def split: sum.splits)
qed

lemma extract_audio_Inl:
  assumes "extract_audio env w p = (Inl e, w1)"
  shows "disk w \<subseteq>\<^sub>m disk w1"
    and "trace w1 = trace w \<or> (\<exists>tmp. disk w tmp = None \<and> trace w1 = trace w @ [RunCommand (ffmpeg_cmd p tmp)])"
proof -
  obtain r w0 where ntf: "NamedTemporaryFile env w ''.wav'' = (r, w0)"
    by (cases "NamedTemporaryFile env w ''.wav''")
  show "disk w \<subseteq>\<^sub>m disk w1"
  proof (cases r)
    case (Inl e')
    then show ?thesis
      using assms NamedTemporaryFile_Inl(1) [OF ntf [unfolded Inl]]
      by (auto simp: extract_audio_def ntf)
  next
    case (Inr tmp)
    note f = NamedTemporaryFile_Inr [OF ntf [unfolded Inr]]
    have "disk w1 = (disk w)(tmp \<mapsto> [])"
      using assms f(2) by (auto simp: extract_audio_def ntf Inr Let_def log_event_def split: sum.splits)
    then show ?thesis using f(1) by (auto simp: map_le_def)
  qed
  show "trace w1 = trace w \<or> (\<exists>tmp. disk w tmp = None \<and> trace w1 = trace w @ [RunCommand (ffmpeg_cmd p tmp)])"
  proof (cases r)
    case (Inl e')
    then show ?thesis
      using assms NamedTemporaryFile_Inl(2) [OF ntf [unfolded Inl]]
      by (auto simp: extract_audio_def ntf)
  next
    case (Inr tmp)
    note f = NamedTemporaryFile_Inr [OF ntf [unfolded Inr]]
    have "trace w1 = trace w @ [RunCommand (ffmpeg_cmd p tmp)]"
      using assms f(3) by (auto simp: extract_audio_def ntf Inr Let_def log_event_def split: sum.splits)
    then show ?thesis using f(1) by blast
  qed
qed

lemma os_unlink_facts:
  assumes "os_unlink w q = (r, w1)"
  shows "trace w1 = trace w @ [UnlinkCall q]" and "disk w1 = (disk w)(q := None)"
  using assms by (auto simp: os_unlink_def Let_def log_event_def split: if_splits)

lemma transcribe_file_audio:
  assumes "\<not> is_video env p"
  shows "transcribe_file env w p m l =
           (case load_model env m of
              Inl e \<Rightarrow> (Inl e, log_event (LoadModel m) w)
            | Inr model \<Rightarrow>
                (model_transcribe env model (disk w) p (if l = ''auto'' then None else Some l),
                 log_event (TranscribeCall p (if l = ''auto'' then None else Some l))
                   (log_event (LoadModel m) w)))"
  using assms by (auto simp: transcribe_file_def Let_def log_event_def split: sum.splits)

lemma transcribe_file_events:
  "\<exists>evs. trace (snd (transcribe_file env w p m l)) = trace w @ LoadModel m # evs \<and>
     (evs = [] \<or>
      (\<not> is_video env p \<and> evs = [TranscribeCall p (if l = ''auto'' then None else Some l)]) \<or>
      (is_video env p \<and> (\<exists>tmp. disk w tmp = None \<and>
         (evs = [RunCommand (ffmpeg_cmd p tmp)] \<or>
          evs = [RunCommand (ffmpeg_cmd p tmp), TranscribeCall tmp (if l = ''auto'' then None else Some l)] \<or>
          (tmp \<noteq> p \<and> fst (NamedTemporaryFile env w ''.wav'') = Inr tmp \<and>
           evs = [RunCommand (ffmpeg_cmd p tmp), TranscribeCall tmp (if l = ''auto'' then None else Some l),
                  UnlinkCall tmp])))))"
proof (cases "is_video env p")
  case False
  then show ?thesis
    by (auto simp: transcribe_file_audio log_event_def split: sum.splits)
next
  case True
  let ?w0 = "log_event (LoadModel m) w"
  let ?h = "if l = ''auto'' then None else Some l"
  have w0: "trace ?w0 = trace w @ [LoadModel m]" "disk ?w0 = disk w"
    by (simp_all add: log_event_def)
  show ?thesis
  proof (cases "load_model env m")
    case (Inl e)
    then show ?thesis by (simp add: transcribe_file_def Let_def w0)
  next
    case (Inr model)
    obtain r w1 where ex: "extract_audio env ?w0 p = (r, w1)"
      by (cases "extract_audio env ?w0 p")
    show ?thesis
    proof (cases r)
      case (Inl e)
      have "transcribe_file env w p m l = (Inl e, w1)"
        using True by (simp add: transcribe_file_def Let_def Inr ex Inl)
      then show ?thesis
        using extract_audio_Inl(2) [OF ex [unfolded Inl]] True by (auto simp: w0)
    next
      case tmp: (Inr tmp)
      note f = extract_audio_Inr [OF ex [unfolded tmp]]
      have fresh: "disk w tmp = None" using f(1) by (simp add: w0)
      have tr1: "trace w1 = trace w @ [LoadModel m, RunCommand (ffmpeg_cmd p tmp)]"
        using f(3) by (simp add: w0)
      have ntf: "fst (NamedTemporaryFile env w ''.wav'') = Inr tmp"
        using f(4) by (simp add: NamedTemporaryFile_def log_event_def split: prod.splits sum.splits)
      let ?w2 = "log_event (TranscribeCall tmp ?h) w1"
      have tr2: "trace ?w2 = trace w @ [LoadModel m, RunCommand (ffmpeg_cmd p tmp), TranscribeCall tmp ?h]"
        using tr1 by (simp add: log_event_def)
      show ?thesis
      proof (cases "model_transcribe env model (disk ?w2) tmp ?h")
        case (Inl e)
        have "transcribe_file env w p m l = (Inl e, ?w2)"
          using True Inl by (simp add: transcribe_file_def Let_def Inr ex tmp)
        then show ?thesis using tr2 True fresh by auto
      next
        case ok: (Inr t)
        show ?thesis
        proof (cases "tmp = p")
          case same: True
          have "transcribe_file env w p m l = (Inr t, ?w2)"
            using True ok same by (simp add: transcribe_file_def Let_def Inr ex tmp)
          then show ?thesis using tr2 True fresh by auto
        next
          case diff: False
          obtain u w3 where ul: "os_unlink ?w2 tmp = (u, w3)" by (cases "os_unlink ?w2 tmp")
          have "snd (transcribe_file env w p m l) = w3"
            using True ok diff ul by (simp add: transcribe_file_def Let_def Inr ex tmp split: sum.splits)
          moreover have "trace w3 = trace w @ [LoadModel m, RunCommand (ffmpeg_cmd p tmp), TranscribeCall tmp ?h, UnlinkCall tmp]"
            using os_unlink_facts(1) [OF ul] tr2 by simp
          ultimately show ?thesis using True fresh diff ntf by auto
        qed
      qed
    qed
  qed
qed

lemma transcribe_file_keeps: "disk w \<subseteq>\<^sub>m disk (snd (transcribe_file env w p m l))"
proof (cases "is_video env p")
  case False
  then show ?thesis
    by (auto simp: transcribe_file_audio log_event_def split: sum.splits)
next
  case True
  let ?w0 = "log_event (LoadModel m) w"
  let ?h = "if l = ''auto'' then None else Some l"
  have w0: "disk ?w0 = disk w"
    by (simp_all add: log_event_def)
  show ?thesis
  proof (cases "load_model env m")
    case (Inl e)
    then show ?thesis by (simp add: transcribe_file_def Let_def w0)
  next
    case (Inr model)
    obtain r w1 where ex: "extract_audio env ?w0 p = (r, w1)"
      by (cases "extract_audio env ?w0 p")
    show ?thesis
    proof (cases r)
      case (Inl e)
      have "transcribe_file env w p m l = (Inl e, w1)"
        using True by (simp add: transcribe_file_def Let_def Inr ex Inl)
      then show ?thesis
        using extract_audio_Inl(1) [OF ex [unfolded Inl]] by (simp add: w0)
    next
      case tmp: (Inr tmp)
      note f = extract_audio_Inr [OF ex [unfolded tmp]]
      have fresh: "disk w tmp = None" using f(1) by (simp add: w0)
      obtain out where d1: "disk w1 = (disk w)(tmp := out)" using f(2) by (auto simp: w0)
      let ?w2 = "log_event (TranscribeCall tmp ?h) w1"
      have d2: "disk ?w2 = (disk w)(tmp := out)" using d1 by (simp add: log_event_def)
      have k2: "disk w \<subseteq>\<^sub>m disk ?w2" using fresh d2 by (auto simp: map_le_def)
      show ?thesis
      proof (cases "model_transcribe env model (disk ?w2) tmp ?h")
        case (Inl e)
        have "transcribe_file env w p m l = (Inl e, ?w2)"
          using True Inl by (simp add: transcribe_file_def Let_def Inr ex tmp)
        then show ?thesis using k2 by simp
      next
        case ok: (Inr t)
        show ?thesis
        proof (cases "tmp = p")
          case same: True
          have "transcribe_file env w p m l = (Inr t, ?w2)"
            using True ok same by (simp add: transcribe_file_def Let_def Inr ex tmp)
          then show ?thesis using k2 by simp
        next
          case diff: False
          obtain u w3 where ul: "os_unlink ?w2 tmp = (u, w3)" by (cases "os_unlink ?w2 tmp")
          have "snd (transcribe_file env w p m l) = w3"
            using True ok diff ul by (simp add: transcribe_file_def Let_def Inr ex tmp split: sum.splits)
          moreover have "disk w3 = (disk w)(tmp := None)"
            using os_unlink_facts(2) [OF ul] d2 by simp
          ultimately show ?thesis using fresh by (auto simp: map_le_def)
        qed
      qed
    qed
  qed
qed

section \<open>What a batch does to the world\<close>

lemma NamedTemporaryFile_log:
  "NamedTemporaryFile env (log_event ev w) suf =
     (fst (NamedTemporaryFile env w suf), log_event ev (snd (NamedTemporaryFile env w suf)))"
  by (simp add: NamedTemporaryFile_def log_event_def split: prod.splits sum.splits)

lemma transcribe_file_new_events:
  "\<exists>evs. trace (snd (transcribe_file env w p m l)) = trace w @ evs \<and>
     (\<forall>a h. TranscribeCall a h \<in> set evs \<longrightarrow> h = (if l = ''auto'' then None else Some l)) \<and>
     (\<forall>q. UnlinkCall q \<in> set evs \<longrightarrow>
        q \<noteq> p \<and> is_video env p \<and> disk w q = None \<and> fst (NamedTemporaryFile env w ''.wav'') = Inr q)"
  using transcribe_file_events [of env w p m l] by auto

lemma items_keeps: "disk w \<subseteq>\<^sub>m disk (snd (transcribe_items env m l items acc w))"
proof (induction items arbitrary: acc w)
  case Nil
  show ?case by simp
next
  case (Cons it items)
  obtain p shown where it: "it = (p, shown)" by (cases it)
  obtain r w' where tf: "transcribe_file env w p m l = (r, w')" by (cases "transcribe_file env w p m l")
  have step: "disk w \<subseteq>\<^sub>m disk w'"
    using transcribe_file_keeps [of w env p m l] by (simp add: tf)
  show ?case
  proof (cases r)
    case (Inl e)
    then show ?thesis
      using map_le_trans [OF step Cons.IH [of w']] by (simp add: it tf)
  next
    case (Inr t)
    then show ?thesis
      using map_le_trans [OF step Cons.IH [of w']] by (simp add: it tf)
  qed
qed

lemma items_new_events:
  "\<exists>evs. trace (snd (transcribe_items env m l items acc w)) = trace w @ evs \<and>
     (\<forall>a h. TranscribeCall a h \<in> set evs \<longrightarrow> h = (if l = ''auto'' then None else Some l)) \<and>
     (\<forall>q. UnlinkCall q \<in> set evs \<longrightarrow> disk w q = None)"
proof (induction items arbitrary: acc w)
  case Nil
  show ?case by simp
next
  case (Cons it items)
  obtain p shown where it: "it = (p, shown)" by (cases it)
  obtain r w' where tf: "transcribe_file env w p m l = (r, w')" by (cases "transcribe_file env w p m l")
  have keeps: "disk w \<subseteq>\<^sub>m disk w'"
    using transcribe_file_keeps [of w env p m l] by (simp add: tf)
  have gone: "disk w q = None" if "disk w' q = None" for q
    using keeps that by (cases "disk w q") (auto simp: map_le_def dom_def)
  obtain evs1 where e1: "trace w' = trace w @ evs1"
    "\<forall>a h. TranscribeCall a h \<in> set evs1 \<longrightarrow> h = (if l = ''auto'' then None else Some l)"
    "\<forall>q. UnlinkCall q \<in> set evs1 \<longrightarrow> disk w q = None"
    using transcribe_file_new_events [of env w p m l] by (auto simp: tf)
  have rest: "\<exists>evs. trace (snd (transcribe_items env m l items acc' w')) = trace w @ evs \<and>
     (\<forall>a h. TranscribeCall a h \<in> set evs \<longrightarrow> h = (if l = ''auto'' then None else Some l)) \<and>
     (\<forall>q. UnlinkCall q \<in> set evs \<longrightarrow> disk w q = None)" for acc'
  proof -
    obtain evs2 where e2: "trace (snd (transcribe_items env m l items acc' w')) = trace w' @ evs2"
      "\<forall>a h. TranscribeCall a h \<in> set evs2 \<longrightarrow> h = (if l = ''auto'' then None else Some l)"
      "\<forall>q. UnlinkCall q \<in> set evs2 \<longrightarrow> disk w' q = None"
      using Cons.IH [of acc' w'] by auto
    have "trace (snd (transcribe_items env m l items acc' w')) = trace w @ (evs1 @ evs2)"
      using e1(1) e2(1) by simp
    moreover have "\<forall>a h. TranscribeCall a h \<in> set (evs1 @ evs2) \<longrightarrow> h = (if l = ''auto'' then None else Some l)"
      using e1(2) e2(2) by auto
    moreover have "\<forall>q. UnlinkCall q \<in> set (evs1 @ evs2) \<longrightarrow> disk w q = None"
      using e1(3) e2(3) gone by auto
    ultimately show ?thesis by blast
  qed
  show ?case
  proof (cases r)
    case (Inl e)
    then show ?thesis using rest by (simp add: it tf)
  next
    case (Inr t)
    then show ?thesis using rest by (simp add: it tf)
  qed
qed

lemma save_report_facts:
  assumes "save_report env w full_text = (r, w1)"
  shows "trace w1 = trace w" and "disk w \<subseteq>\<^sub>m disk w1"
    and "r = Inr (t, Some p) \<Longrightarrow> t = full_text \<and> disk w p = None \<and> disk w1 p = Some full_text"
    and "(\<exists>e. r = Inl e) \<or> (\<exists>p. r = Inr (full_text, Some p))"
proof -
  obtain r0 w0 where ntf: "NamedTemporaryFile env w ''.txt'' = (r0, w0)"
    by (cases "NamedTemporaryFile env w ''.txt''")
  have all: "trace w1 = trace w \<and> disk w \<subseteq>\<^sub>m disk w1 \<and>
      (r = Inr (t, Some p) \<longrightarrow> t = full_text \<and> disk w p = None \<and> disk w1 p = Some full_text) \<and>
      ((\<exists>e. r = Inl e) \<or> (\<exists>p. r = Inr (full_text, Some p)))"
  proof (cases r0)
    case (Inl e)
    note f = NamedTemporaryFile_Inl [OF ntf [unfolded Inl]]
    have "r = Inl e" "w1 = w0"
      using assms by (simp_all add: save_report_def ntf Inl)
    then show ?thesis using f by simp
  next
    case (Inr tmp)
    note f = NamedTemporaryFile_Inr [OF ntf [unfolded Inr]]
    have r: "r = Inr (full_text, Some tmp)" and w1: "w1 = w0\<lparr>disk := (disk w0)(tmp \<mapsto> full_text)\<rparr>"
      using assms by (simp_all add: save_report_def ntf Inr)
    have "disk w1 = (disk w)(tmp \<mapsto> full_text)"
      using f(2) by (simp add: w1)
    then have "disk w \<subseteq>\<^sub>m disk w1" "disk w1 tmp = Some full_text"
      using f(1) by (auto simp: map_le_def)
    moreover have "trace w1 = trace w" using f(3) by (simp add: w1)
    ultimately show ?thesis using r f(1) by auto
  qed
  show "trace w1 = trace w" and "disk w \<subseteq>\<^sub>m disk w1"
    and "r = Inr (t, Some p) \<Longrightarrow> t = full_text \<and> disk w p = None \<and> disk w1 p = Some full_text"
    and "(\<exists>e. r = Inl e) \<or> (\<exists>p. r = Inr (full_text, Some p))"
    using all by blast+
qed

section \<open>The patterns of the folder scan\<close>

lemma fnmatch_literal:
  "CHR ''*'' \<notin> set ps \<Longrightarrow> CHR ''?'' \<notin> set ps \<Longrightarrow> fnmatch ps n = (n = ps)"
proof (induction ps arbitrary: n)
  case Nil
  show ?case by (cases n) simp_all
next
  case (Cons p ps)
  then show ?case by (cases n) auto
qed

lemma fnmatch_star:
  assumes "CHR ''*'' \<notin> set ps" and "CHR ''?'' \<notin> set ps"
  shows "fnmatch (CHR ''*'' # ps) n = (\<exists>k. drop k n = ps)"
proof (induction n)
  case Nil
  show ?case using fnmatch_literal [OF assms, of "[]"] by auto
next
  case (Cons c cs)
  have "(\<exists>k. drop k (c # cs) = ps) = (c # cs = ps \<or> (\<exists>k. drop k cs = ps))"
  proof
    assume "\<exists>k. drop k (c # cs) = ps"
    then obtain k where k: "drop k (c # cs) = ps" by blast
    show "c # cs = ps \<or> (\<exists>k. drop k cs = ps)"
    proof (cases k)
      case 0
      then show ?thesis using k by simp
    next
      case (Suc j)
      then have "drop j cs = ps" using k by simp
      then show ?thesis by blast
    qed
  next
    assume "c # cs = ps \<or> (\<exists>k. drop k cs = ps)"
    then show "\<exists>k. drop k (c # cs) = ps"
    proof
      assume "c # cs = ps"
      then have "drop 0 (c # cs) = ps" by simp
      then show ?thesis by blast
    next
      assume "\<exists>k. drop k cs = ps"
      then obtain k where "drop k cs = ps" by blast
      then have "drop (Suc k) (c # cs) = ps" by simp
      then show ?thesis by blast
    qed
  qed
  then show ?case
    using Cons.IH fnmatch_literal [OF assms, of "c # cs"] by simp
qed

lemma endswith_drop: "endswith s t = (\<exists>k. drop k s = t)"
proof
  assume "endswith s t"
  then show "\<exists>k. drop k s = t" by (auto simp: endswith_def)
next
  assume "\<exists>k. drop k s = t"
  then obtain k where k: "drop k s = t" by blast
  show "endswith s t"
  proof (cases "k \<le> length s")
    case True
    have len: "length t = length s - k" using k by auto
    then have "length t \<le> length s" and "length s - length t = k" using True by simp_all
    then show ?thesis using k by (simp add: endswith_def)
  next
    case False
    then have "t = []" using k by auto
    then show ?thesis by (simp add: endswith_def)
  qed
qed

lemma endswith_lower: "endswith n e \<Longrightarrow> endswith (lower n) (lower e)"
  unfolding endswith_drop lower_def by (auto simp: drop_map)

lemma all_exts_plain:
  "\<forall>ext \<in> set all_exts.
     lower ext = ext \<and> lower (upper ext) = ext \<and>
     CHR ''*'' \<notin> set ext \<and> CHR ''?'' \<notin> set ext \<and>
     CHR ''*'' \<notin> set (upper ext) \<and> CHR ''?'' \<notin> set (upper ext)"
  by code_simp

lemma glob_ext:
  assumes "ext \<in> set all_exts"
  shows "fnmatch (''*'' @ ext) n = endswith n ext"
    and "fnmatch (''*'' @ upper ext) n = endswith n (upper ext)"
  using assms all_exts_plain fnmatch_star [of ext n] fnmatch_star [of "upper ext" n]
  by (simp_all add: endswith_drop)

lemma glob_ext_lower:
  assumes "ext \<in> set all_exts" and "fnmatch (''*'' @ ext) n \<or> fnmatch (''*'' @ upper ext) n"
  shows "endswith (lower n) ext"
proof -
  have "endswith n ext \<or> endswith n (upper ext)"
    using assms glob_ext by simp
  then have "endswith (lower n) (lower ext) \<or> endswith (lower n) (lower (upper ext))"
    using endswith_lower by blast
  then show ?thesis using assms(1) all_exts_plain by simp
qed

lemma folder_files_none:
  assumes "\<forall>n \<in> set (listing w (path_str (Path folder))). \<forall>ext \<in> set all_exts. \<not> endswith (lower n) ext"
  shows "folder_files w folder = []"
proof -
  have "filter (fnmatch (''*'' @ ext)) (listing w (path_str (Path folder))) = [] \<and>
        filter (fnmatch (''*'' @ upper ext)) (listing w (path_str (Path folder))) = []"
    if "ext \<in> set all_exts" for ext
    using assms that glob_ext_lower [OF that] by (auto simp: filter_empty_conv)
  then show ?thesis
    by (simp add: folder_files_def glob_def)
qed

section \<open>Reading the trace\<close>

lemma new_events_eq:
  "trace w' = trace w @ evs \<Longrightarrow> drop (length (trace w)) (trace w') = evs"
  by simp

lemma hint_forms:
  assumes "\<forall>a h. TranscribeCall a h \<in> set evs \<longrightarrow> h = (if l = ''auto'' then None else Some l)"
  shows "\<forall>a h. TranscribeCall a h \<in> set evs \<longrightarrow>
           (h = None \<longleftrightarrow> l = ''auto'') \<and> (l \<noteq> ''auto'' \<longrightarrow> h = Some l)"
proof (intro allI impI)
  fix a h
  assume "TranscribeCall a h \<in> set evs"
  then have "h = (if l = ''auto'' then None else Some l)" using assms by blast
  then show "(h = None \<longleftrightarrow> l = ''auto'') \<and> (l \<noteq> ''auto'' \<longrightarrow> h = Some l)"
    by (cases "l = ''auto''") simp_all
qed

lemma extract_audio_runs:
  assumes "NamedTemporaryFile env w ''.wav'' = (Inr tmp, wn)"
  shows "trace (snd (extract_audio env w p)) = trace w @ [RunCommand (ffmpeg_cmd p tmp)]"
proof -
  have "trace wn = trace w" by (rule NamedTemporaryFile_Inr(3) [OF assms])
  then show ?thesis
    by (cases "subprocess_run env (disk wn) (ffmpeg_cmd p tmp)")
      (auto simp: extract_audio_def assms Let_def log_event_def)
qed

section \<open>Files a batch leaves alone\<close>

lemma map_le_kept: "d \<subseteq>\<^sub>m d' \<Longrightarrow> d q = Some c \<Longrightarrow> d' q = Some c"
  by (auto simp: map_le_def dom_def)

lemma process_files_keeps: "disk w \<subseteq>\<^sub>m disk (snd (process_files env w files m l))"
proof (cases "files = []")
  case True
  then show ?thesis by (simp add: process_files_def)
next
  case False
  let ?items = "map (\<lambda>file. (upload_name file, path_name (Path (upload_name file)))) files"
  obtain results w1 where loop: "transcribe_items env m l ?items [] w = (results, w1)"
    by (cases "transcribe_items env m l ?items [] w")
  obtain r w2 where save: "save_report env w1 (join ''\<newline>'' results) = (r, w2)"
    by (cases "save_report env w1 (join ''\<newline>'' results)")
  have "disk w \<subseteq>\<^sub>m disk w1"
    using items_keeps [of w env m l ?items "[]"] by (simp add: loop)
  then have "disk w \<subseteq>\<^sub>m disk w2"
    using save_report_facts(2) [OF save] by (rule map_le_trans)
  then show ?thesis using False by (simp add: process_files_def loop save)
qed

lemma process_folder_keeps: "disk w \<subseteq>\<^sub>m disk (snd (process_folder env w folder m l))"
proof (cases "folder = [] \<or> folder_files w folder = []")
  case True
  then show ?thesis by (auto simp: process_folder_def)
next
  case False
  let ?items = "map (\<lambda>file_path. (path_str file_path, path_name file_path)) (folder_files w folder)"
  obtain results w1 where loop: "transcribe_items env m l ?items [] w = (results, w1)"
    by (cases "transcribe_items env m l ?items [] w")
  obtain r w2 where save: "save_report env w1 (join ''\<newline>'' results) = (r, w2)"
    by (cases "save_report env w1 (join ''\<newline>'' results)")
  have "disk w \<subseteq>\<^sub>m disk w1"
    using items_keeps [of w env m l ?items "[]"] by (simp add: loop)
  then have "disk w \<subseteq>\<^sub>m disk w2"
    using save_report_facts(2) [OF save] by (rule map_le_trans)
  then show ?thesis using False by (simp add: process_folder_def Let_def loop save)
qed

lemma process_files_unlinks:
  "\<exists>evs. trace (snd (process_files env w files m l)) = trace w @ evs \<and>
     (\<forall>q. UnlinkCall q \<in> set evs \<longrightarrow> disk w q = None)"
proof (cases "files = []")
  case True
  then show ?thesis by (simp add: process_files_def)
next
  case False
  let ?items = "map (\<lambda>file. (upload_name file, path_name (Path (upload_name file)))) files"
  obtain results w1 where loop: "transcribe_items env m l ?items [] w = (results, w1)"
    by (cases "transcribe_items env m l ?items [] w")
  obtain r w2 where save: "save_report env w1 (join ''\<newline>'' results) = (r, w2)"
    by (cases "save_report env w1 (join ''\<newline>'' results)")
  obtain evs where evs: "trace w1 = trace w @ evs" "\<forall>q. UnlinkCall q \<in> set evs \<longrightarrow> disk w q = None"
    using items_new_events [of env m l ?items "[]" w] by (auto simp: loop)
  have "snd (process_files env w files m l) = w2"
    using False by (simp add: process_files_def loop save)
  then have "trace (snd (process_files env w files m l)) = trace w @ evs"
    using save_report_facts(1) [OF save] evs(1) by simp
  then show ?thesis using evs(2) by blast
qed

section \<open>Letter case and the suffix of a path\<close>

lemma lower_char_slash: "(lower_char x = CHR ''/'') = (x = CHR ''/'')"
  by (auto simp: lower_char_def split: if_splits)

lemma lower_char_dot: "(lower_char x = CHR ''.'') = (x = CHR ''.'')"
  by (auto simp: lower_char_def split: if_splits)

lemma lower_char_twice: "lower_char (lower_char x) = lower_char x"
  by (auto simp: lower_char_def split: if_splits)

lemma lower_twice: "lower (lower s) = lower s"
  by (simp add: lower_def lower_char_twice)

lemma split_sep_nonempty: "split_sep c s \<noteq> []"
  by (induction s) (auto split: list.splits)

lemma split_sep_map:
  assumes "\<And>x. (f x = c) = (x = c)"
  shows "split_sep c (map f s) = map (map f) (split_sep c s)"
proof (induction s)
  case Nil
  show ?case by simp
next
  case (Cons x xs)
  show ?case
  proof (cases "split_sep c xs")
    case Nil
    then show ?thesis using split_sep_nonempty [of c xs] by simp
  next
    case (Cons p ps)
    then show ?thesis using Cons.IH assms [of x] by simp
  qed
qed

lemma split_sep_set: "x \<in> set (split_sep c s) \<Longrightarrow> set x \<subseteq> set s"
proof (induction s arbitrary: x)
  case Nil
  then show ?case by simp
next
  case (Cons y ys)
  show ?case
  proof (cases "split_sep c ys")
    case Nil
    then show ?thesis using split_sep_nonempty [of c ys] by simp
  next
    case (Cons p ps)
    have p: "set p \<subseteq> set ys" using Cons.IH [of p] Cons by simp
    have ps: "z \<in> set ps \<Longrightarrow> set z \<subseteq> set ys" for z using Cons.IH [of z] Cons by simp
    show ?thesis
      using Cons.prems Cons p ps by (auto split: if_splits)
  qed
qed

lemma rfind_from_map:
  assumes "\<And>x. (f x = c) = (x = c)"
  shows "rfind_from (map f s) c i found = rfind_from s c i found"
  by (induction s arbitrary: i found) (simp_all add: assms)

lemma map_eq_dot: "(map lower_char c = ''.'') = (c = ''.'')"
  by (cases c) (auto simp: lower_char_dot)

lemma Path_lower: "parts (Path (lower p)) = map lower (parts (Path p))"
proof -
  have "filter (\<lambda>c. c \<noteq> [] \<and> c \<noteq> ''.'') (map (map lower_char) xs) =
        map (map lower_char) (filter (\<lambda>c. c \<noteq> [] \<and> c \<noteq> ''.'') xs)" for xs
    by (induction xs) (simp_all add: map_eq_dot)
  then show ?thesis
    using split_sep_map [of lower_char "CHR ''/''" p]
    by (simp add: Path_def lower_def [abs_def] lower_char_slash)
qed

lemma path_suffix_lower: "path_suffix (Path (lower p)) = lower (path_suffix (Path p))"
proof -
  have name: "path_name (Path (lower p)) = lower (path_name (Path p))"
    by (simp add: path_name_def Path_lower last_map) (simp add: lower_def)
  have rf: "rfind (lower s) (CHR ''.'') = rfind s (CHR ''.'')" for s
    using rfind_from_map [of lower_char "CHR ''.''" s 0 "- 1"]
    by (simp add: rfind_def lower_def lower_char_dot)
  show ?thesis
    unfolding path_suffix_def Let_def name rf
    by (simp add: lower_def drop_map)
qed

lemma path_suffix_set: "set (path_suffix (Path p)) \<subseteq> set p"
proof -
  have "set (path_name (Path p)) \<subseteq> set p"
  proof (cases "parts (Path p) = []")
    case True
    then show ?thesis by (simp add: path_name_def)
  next
    case False
    then have "last (parts (Path p)) \<in> set (parts (Path p))" by simp
    then have "last (parts (Path p)) \<in> set (split_sep (CHR ''/'') p)"
      by (simp add: Path_def)
    then show ?thesis using False split_sep_set by (simp add: path_name_def)
  qed
  moreover have "set (path_suffix (Path p)) \<subseteq> set (path_name (Path p))"
    by (auto simp: path_suffix_def Let_def dest: in_set_dropD)
  ultimately show ?thesis by blast
qed

lemma demo_str_lower_ascii: "\<forall>c\<in>set s. is_ascii c \<Longrightarrow> demo_str_lower s = lower s"
proof (induction s rule: demo_str_lower.induct)
  case 1
  show ?case by (simp add: lower_def)
next
  case (2 c cs)
  have "is_ascii c" using "2.prems" by simp
  then have c: "c \<noteq> CHR 0xE2" by (auto simp: is_ascii_def)
  then have no: "take 3 (c # cs) \<noteq> [CHR 0xE2, CHR 0x84, CHR 0xAA]"
    by simp
  have "demo_str_lower cs = lower cs"
    using "2.IH"(2) [OF no] "2.prems" by simp
  then show ?case using c by (simp add: lower_def)
qed

lemma is_video_ascii:
  assumes "\<forall>s. (\<forall>c\<in>set s. is_ascii c) \<longrightarrow> str_lower env s = lower s"
    and "\<forall>c\<in>set p. is_ascii c"
  shows "is_video env p = (lower (path_suffix (Path p)) \<in> set video_exts)"
proof -
  have "\<forall>c\<in>set (path_suffix (Path p)). is_ascii c"
    using assms(2) path_suffix_set [of p] by blast
  then have "str_lower env (path_suffix (Path p)) = lower (path_suffix (Path p))"
    using assms(1) by blast
  then show ?thesis by (simp add: is_video_def)
qed

lemma is_video_ascii_case:
  assumes "\<forall>s. (\<forall>c\<in>set s. is_ascii c) \<longrightarrow> str_lower env s = lower s"
    and "\<forall>c\<in>set p. is_ascii c" and "\<forall>c\<in>set q. is_ascii c" and "lower q = lower p"
  shows "is_video env q = is_video env p"
proof -
  have "lower (path_suffix (Path q)) = lower (path_suffix (Path p))"
    using assms(4) path_suffix_lower [of p] path_suffix_lower [of q] by simp
  then show ?thesis
    using is_video_ascii [OF assms(1,2)] is_video_ascii [OF assms(1,3)] by simp
qed

section \<open>The extraction command\<close>

lemma extract_audio_completed:
  assumes "fst (NamedTemporaryFile env w ''.wav'') = Inr tmp"
    and "subprocess_run env ((disk w)(tmp \<mapsto> [])) (ffmpeg_cmd p tmp) = Inr (returncode, out)"
  shows
    "fst (extract_audio env w p) = Inr tmp \<and>
     disk (snd (extract_audio env w p)) = (disk w)(tmp := out) \<and>
     (is_video env p \<and> load_model env m = Inr model \<longrightarrow>
        TranscribeCall tmp (if l = ''auto'' then None else Some l)
          \<in> set (trace (snd (transcribe_file env w p m l))) \<and>
        (\<forall>e. model_transcribe env model ((disk w)(tmp := out)) tmp
                (if l = ''auto'' then None else Some l) = Inl e \<longrightarrow>
             fst (transcribe_file env w p m l) = Inl e))"
proof -
  let ?h = "if l = ''auto'' then None else Some l"
  have run: "extract_audio env v p =
      (Inr tmp, (log_event (RunCommand (ffmpeg_cmd p tmp)) (snd (NamedTemporaryFile env v ''.wav'')))
                  \<lparr>disk := (disk w)(tmp := out)\<rparr>)"
    if same: "disk v = disk w" and names: "names_used v = names_used w" for v
  proof -
    obtain r0 wn where ntf: "NamedTemporaryFile env v ''.wav'' = (r0, wn)"
      by (cases "NamedTemporaryFile env v ''.wav''")
    have "fst (NamedTemporaryFile env v ''.wav'') = fst (NamedTemporaryFile env w ''.wav'')"
      using same names by (simp add: NamedTemporaryFile_def split: prod.splits sum.splits)
    then have r0: "r0 = Inr tmp" using assms(1) ntf by simp
    have "disk wn = (disk w)(tmp \<mapsto> [])"
      using NamedTemporaryFile_Inr(2) [OF ntf [unfolded r0]] same by simp
    then show ?thesis
      using assms(2) by (simp add: extract_audio_def ntf r0 Let_def log_event_def)
  qed
  have one: "fst (extract_audio env w p) = Inr tmp \<and> disk (snd (extract_audio env w p)) = (disk w)(tmp := out)"
    using run [of w] by simp
  have two: "TranscribeCall tmp ?h \<in> set (trace (snd (transcribe_file env w p m l))) \<and>
      (\<forall>e. model_transcribe env model ((disk w)(tmp := out)) tmp ?h = Inl e \<longrightarrow>
           fst (transcribe_file env w p m l) = Inl e)"
    if v: "is_video env p" and ld: "load_model env m = Inr model"
  proof -
    let ?w0 = "log_event (LoadModel m) w"
    let ?w1 = "(log_event (RunCommand (ffmpeg_cmd p tmp)) (snd (NamedTemporaryFile env ?w0 ''.wav'')))
                  \<lparr>disk := (disk w)(tmp := out)\<rparr>"
    let ?w2 = "log_event (TranscribeCall tmp ?h) ?w1"
    have ex: "extract_audio env ?w0 p = (Inr tmp, ?w1)"
      using run [of ?w0] by (simp add: log_event_def)
    have d2: "disk ?w2 = (disk w)(tmp := out)" by (simp add: log_event_def)
    have t2: "TranscribeCall tmp ?h \<in> set (trace ?w2)" by (simp add: log_event_def)
    show ?thesis
    proof (cases "model_transcribe env model ((disk w)(tmp := out)) tmp ?h")
      case (Inl e)
      have "transcribe_file env w p m l = (Inl e, ?w2)"
        using v ld ex Inl d2 by (simp add: transcribe_file_def Let_def)
      then show ?thesis using t2 Inl by simp
    next
      case (Inr t)
      obtain u w3 where ul: "os_unlink ?w2 tmp = (u, w3)" by (cases "os_unlink ?w2 tmp")
      have t3: "TranscribeCall tmp ?h \<in> set (trace w3)"
        using os_unlink_facts(1) [OF ul] t2 by simp
      have "snd (transcribe_file env w p m l) = ?w2 \<or> snd (transcribe_file env w p m l) = w3"
        using v ld ex Inr d2 ul by (cases u) (simp_all add: transcribe_file_def Let_def)
      then show ?thesis using t2 t3 Inr by auto
    qed
  qed
  show ?thesis using one two by blast
qed


lemma extract_audio_not_started:
  assumes "fst (NamedTemporaryFile env w ''.wav'') = Inr tmp"
    and "subprocess_run env ((disk w)(tmp \<mapsto> [])) (ffmpeg_cmd p tmp) = Inl e"
  shows
    "fst (extract_audio env w p) = Inl e \<and>
     (is_video env p \<and> load_model env m = Inr model \<longrightarrow>
        fst (transcribe_file env w p m l) = Inl e \<and>
        drop (length (trace w)) (trace (snd (transcribe_file env w p m l))) =
          [LoadModel m, RunCommand (ffmpeg_cmd p tmp)])"
proof -
  have run: "extract_audio env v p =
      (Inl e, log_event (RunCommand (ffmpeg_cmd p tmp)) (snd (NamedTemporaryFile env v ''.wav'')))"
    if same: "disk v = disk w" and names: "names_used v = names_used w" for v
  proof -
    obtain r0 wn where ntf: "NamedTemporaryFile env v ''.wav'' = (r0, wn)"
      by (cases "NamedTemporaryFile env v ''.wav''")
    have "fst (NamedTemporaryFile env v ''.wav'') = fst (NamedTemporaryFile env w ''.wav'')"
      using same names by (simp add: NamedTemporaryFile_def split: prod.splits sum.splits)
    then have r0: "r0 = Inr tmp" using assms(1) ntf by simp
    have "disk wn = (disk w)(tmp \<mapsto> [])"
      using NamedTemporaryFile_Inr(2) [OF ntf [unfolded r0]] same by simp
    then show ?thesis
      using assms(2) by (simp add: extract_audio_def ntf r0 Let_def log_event_def)
  qed
  have one: "fst (extract_audio env w p) = Inl e"
    using run [of w] by simp
  have two: "fst (transcribe_file env w p m l) = Inl e \<and>
      drop (length (trace w)) (trace (snd (transcribe_file env w p m l))) =
        [LoadModel m, RunCommand (ffmpeg_cmd p tmp)]"
    if v: "is_video env p" and ld: "load_model env m = Inr model"
  proof -
    let ?w0 = "log_event (LoadModel m) w"
    let ?w1 = "log_event (RunCommand (ffmpeg_cmd p tmp)) (snd (NamedTemporaryFile env ?w0 ''.wav''))"
    have ex: "extract_audio env ?w0 p = (Inl e, ?w1)"
      using run [of ?w0] by (simp add: log_event_def)
    have tf: "transcribe_file env w p m l = (Inl e, ?w1)"
      using v ld ex by (simp add: transcribe_file_def Let_def)
    obtain r0 wn where ntf: "NamedTemporaryFile env ?w0 ''.wav'' = (r0, wn)"
      by (cases "NamedTemporaryFile env ?w0 ''.wav''")
    have r0: "r0 = Inr tmp"
      using assms(1) ntf by (simp add: NamedTemporaryFile_log)
    have wn: "snd (NamedTemporaryFile env ?w0 ''.wav'') = wn"
      by (simp add: ntf)
    have "trace wn = trace w @ [LoadModel m]"
      using NamedTemporaryFile_Inr(3) [OF ntf [unfolded r0]] by (simp add: log_event_def)
    moreover have "trace ?w1 = trace wn @ [RunCommand (ffmpeg_cmd p tmp)]"
      unfolding wn by (simp add: log_event_def)
    ultimately have "trace ?w1 = trace w @ [LoadModel m, RunCommand (ffmpeg_cmd p tmp)]"
      by simp
    then show ?thesis using tf by simp
  qed
  show ?thesis using one two by blast
qed

section \<open>The claims\<close>

text \<open>
  Claim C1. For a non-empty list of files, the loop of \<open>process_files\<close> appends
  exactly one entry per file, and entry \<open>i\<close> is the entry of file \<open>i\<close>: its header,
  then the text \<open>transcribe_file\<close> returned for that file, run in the world the files
  before it left, or \<^verbatim>\<open>Error: \<close> and the description of the exception it raised. An
  exception therefore ends neither the loop nor the batch: \<open>process_files\<close> goes on to
  save the report made of all the entries, and returns it whenever the report file can be
  created.
\<close>

theorem process_files_one_entry_per_item:
  assumes "files \<noteq> []"
  shows
    "let items = map (\<lambda>file. (upload_name file, path_name (Path (upload_name file)))) files;
         results = fst (transcribe_items env m l items [] w);
         w1 = snd (transcribe_items env m l items [] w)
     in length results = length files \<and>
        (\<forall>i<length files.
           results ! i =
             ''=== '' @ path_name (Path (upload_name (files ! i))) @ '' ===\<newline>'' @
             (case fst (transcribe_file env (snd (transcribe_items env m l (take i items) [] w))
                          (upload_name (files ! i)) m l) of
                Inr text \<Rightarrow> text
              | Inl e \<Rightarrow> ''Error: '' @ str e) @ ''\<newline>'') \<and>
        process_files env w files m l = save_report env w1 (join ''\<newline>'' results) \<and>
        (\<forall>p. fst (NamedTemporaryFile env w1 ''.txt'') = Inr p \<longrightarrow>
           fst (process_files env w files m l) = Inr (join ''\<newline>'' results, Some p))"
proof -
  let ?items = "map (\<lambda>file. (upload_name file, path_name (Path (upload_name file)))) files"
  let ?results = "fst (transcribe_items env m l ?items [] w)"
  let ?w1 = "snd (transcribe_items env m l ?items [] w)"
  have len: "length ?results = length files"
    by (simp add: items_length)
  have nth: "?results ! i =
      ''=== '' @ path_name (Path (upload_name (files ! i))) @ '' ===\<newline>'' @
      (case fst (transcribe_file env (snd (transcribe_items env m l (take i ?items) [] w))
                   (upload_name (files ! i)) m l) of
         Inr text \<Rightarrow> text
       | Inl e \<Rightarrow> ''Error: '' @ str e) @ ''\<newline>''"
    if "i < length files" for i
    using that items_nth [of i ?items env m l w] by (simp add: render_result_def)
  have run: "process_files env w files m l = save_report env ?w1 (join ''\<newline>'' ?results)"
    using assms by (simp add: process_files_def split: prod.splits)
  have saved: "fst (process_files env w files m l) = Inr (join ''\<newline>'' ?results, Some p)"
    if "fst (NamedTemporaryFile env ?w1 ''.txt'') = Inr p" for p
    using that unfolding run save_report_def by (auto split: prod.splits sum.splits)
  show ?thesis
    unfolding Let_def using len nth run saved by blast
qed

theorem process_files_one_entry_per_item_witness:
  "length (fst (transcribe_items demo_env ''base'' ''auto''
            [(''silent.mp4'', ''silent.mp4''), (''speech.wav'', ''speech.wav'')] [] demo_world)) = 2 \<and>
   fst (transcribe_items demo_env ''base'' ''auto''
            [(''silent.mp4'', ''silent.mp4''), (''speech.wav'', ''speech.wav'')] [] demo_world) ! 0 =
     ''=== silent.mp4 ===\<newline>Error: no audio\<newline>'' \<and>
   fst (transcribe_items demo_env ''base'' ''auto''
            [(''silent.mp4'', ''silent.mp4''), (''speech.wav'', ''speech.wav'')] [] demo_world) ! 1 =
     ''=== speech.wav ===\<newline>hello\<newline>'' \<and>
   fst (process_files demo_env demo_world [Upload ''silent.mp4'', Upload ''speech.wav''] ''base'' ''auto'') =
     Inr (''=== silent.mp4 ===\<newline>Error: no audio\<newline>\<newline>=== speech.wav ===\<newline>hello\<newline>'',
          Some ''/tmp/tmpxx.txt'')"
proof -
  let ?files = "[Upload ''silent.mp4'', Upload ''speech.wav'']"
  let ?items = "[(''silent.mp4'', ''silent.mp4''), (''speech.wav'', ''speech.wav'')]"
  have items: "map (\<lambda>file. (upload_name file, path_name (Path (upload_name file)))) ?files = ?items"
    by code_simp
  have ne: "?files \<noteq> []" by simp
  note T = process_files_one_entry_per_item [OF ne, of demo_env "''base''" "''auto''" demo_world,
      unfolded Let_def items]
  have len: "length (fst (transcribe_items demo_env ''base'' ''auto'' ?items [] demo_world)) = 2"
    using T by simp
  have first: "fst (transcribe_file demo_env (snd (transcribe_items demo_env ''base'' ''auto'' (take 0 ?items) [] demo_world))
                  ''silent.mp4'' ''base'' ''auto'') = Inl (Exn ''no audio'')"
    by code_simp
  have second: "fst (transcribe_file demo_env (snd (transcribe_items demo_env ''base'' ''auto'' (take 1 ?items) [] demo_world))
                  ''speech.wav'' ''base'' ''auto'') = Inr ''hello''"
    by code_simp
  have tmp: "fst (NamedTemporaryFile demo_env (snd (transcribe_items demo_env ''base'' ''auto'' ?items [] demo_world)) ''.txt'')
               = Inr ''/tmp/tmpxx.txt''"
    by code_simp
  have e0: "fst (transcribe_items demo_env ''base'' ''auto'' ?items [] demo_world) ! 0 =
     ''=== silent.mp4 ===\<newline>Error: no audio\<newline>''"
    using T [THEN conjunct2, THEN conjunct1, rule_format, of 0] first by (simp add: path_name_def Path_def parse_root_def)
  have e1: "fst (transcribe_items demo_env ''base'' ''auto'' ?items [] demo_world) ! 1 =
     ''=== speech.wav ===\<newline>hello\<newline>''"
    using T [THEN conjunct2, THEN conjunct1, rule_format, of 1] second by (simp add: path_name_def Path_def parse_root_def)
  have "fst (transcribe_items demo_env ''base'' ''auto'' ?items [] demo_world) =
      [''=== silent.mp4 ===\<newline>Error: no audio\<newline>'', ''=== speech.wav ===\<newline>hello\<newline>'']"
    using len e0 e1 by (simp add: list_eq_iff_nth_eq nth_Cons' less_Suc_eq numeral_2_eq_2)
  then have "fst (process_files demo_env demo_world ?files ''base'' ''auto'') =
     Inr (''=== silent.mp4 ===\<newline>Error: no audio\<newline>\<newline>=== speech.wav ===\<newline>hello\<newline>'',
          Some ''/tmp/tmpxx.txt'')"
    using T [THEN conjunct2, THEN conjunct2, THEN conjunct2, rule_format, OF tmp] by simp
  then show ?thesis using len e0 e1 by simp
qed

text \<open>
  Claim C2, on the code. For the video \<^verbatim>\<open>silent.mp4\<close> the command leaves an empty
  temporary file and the recogniser raises on it. \<open>transcribe_file\<close> then raises too,
  before it reaches the unlink: the temporary file, which did not exist before, is still on
  disk afterwards, and in the batch as well. For \<^verbatim>\<open>clip.mp4\<close>, where the recogniser
  returns, the temporary file is gone afterwards.
\<close>

theorem temporary_file_left_when_transcription_raises:
  "is_video demo_env ''silent.mp4'' \<and>
   disk demo_world ''/tmp/tmpx.wav'' = None \<and>
   fst (extract_audio demo_env demo_world ''silent.mp4'') = Inr ''/tmp/tmpx.wav'' \<and>
   fst (transcribe_file demo_env demo_world ''silent.mp4'' ''base'' ''auto'') = Inl (Exn ''no audio'') \<and>
   trace (snd (transcribe_file demo_env demo_world ''silent.mp4'' ''base'' ''auto'')) =
     [LoadModel ''base'', RunCommand (ffmpeg_cmd ''silent.mp4'' ''/tmp/tmpx.wav''),
      TranscribeCall ''/tmp/tmpx.wav'' None] \<and>
   disk (snd (transcribe_file demo_env demo_world ''silent.mp4'' ''base'' ''auto'')) ''/tmp/tmpx.wav'' = Some [] \<and>
   disk (snd (process_files demo_env demo_world [Upload ''silent.mp4''] ''base'' ''auto'')) ''/tmp/tmpx.wav'' = Some [] \<and>
   fst (transcribe_file demo_env demo_world ''clip.mp4'' ''base'' ''auto'') = Inr ''words'' \<and>
   disk (snd (transcribe_file demo_env demo_world ''clip.mp4'' ''base'' ''auto'')) ''/tmp/tmpx.wav'' = None"
  by code_simp

text \<open>
  Claim C3, on the code. The folder \<^verbatim>\<open>media\<close> holds \<^verbatim>\<open>talk.Mp4\<close>, \<^verbatim>\<open>song.mp3\<close> and
  \<^verbatim>\<open>CLIP.MP4\<close>. The scan matches each extension as written and in upper case only, so
  it finds the last two and not \<^verbatim>\<open>talk.Mp4\<close>, which \<open>transcribe_file\<close> would take for
  a video.
\<close>

theorem mixed_case_extension_not_discovered:
  "listing demo_world (path_str (Path ''media'')) = [''talk.Mp4'', ''song.mp3'', ''CLIP.MP4''] \<and>
   folder_files demo_world ''media'' =
     [PPath [] [''media'', ''song.mp3''], PPath [] [''media'', ''CLIP.MP4'']] \<and>
   lower (path_suffix (Path ''media/talk.Mp4'')) = ''.mp4'' \<and>
   is_video demo_env ''media/talk.Mp4'' \<and>
   \<not> fnmatch (''*'' @ ''.mp4'') ''talk.Mp4'' \<and>
   \<not> fnmatch (''*'' @ upper ''.mp4'') ''talk.Mp4'' \<and>
   fst (process_folder demo_env demo_world ''media'' ''base'' ''auto'') =
     Inr (''=== song.mp3 ===\<newline>la la\<newline>\<newline>=== CLIP.MP4 ===\<newline>LOUD WORDS\<newline>'',
          Some ''/tmp/tmpxx.txt'')"
  by code_simp

text \<open>
  Claim C4. With an empty list of files, \<open>process_files\<close> returns the message
  \<^verbatim>\<open>No files uploaded\<close> and no report file, and leaves the world as it was. When no
  entry of the folder ends, letter case aside, in one of the audio or video extensions,
  \<open>process_folder\<close> returns a message (\<^verbatim>\<open>No folder selected\<close> for the empty path,
  \<^verbatim>\<open>No audio/video files found in folder\<close> otherwise) and no report file, and leaves
  the world as it was: nothing is transcribed and nothing is written.
\<close>

theorem empty_input_gives_message_only:
  "process_files env w [] m l = (Inr (''No files uploaded'', None), w) \<and>
   ((\<forall>n \<in> set (listing w (path_str (Path folder))). \<forall>ext \<in> set all_exts. \<not> endswith (lower n) ext) \<longrightarrow>
      process_folder env w folder m l =
        (Inr (if folder = [] then ''No folder selected''
              else ''No audio/video files found in folder'', None), w))"
  using folder_files_none [of w folder]
  by (simp add: process_files_def process_folder_def)

theorem empty_input_gives_message_only_witness:
  "listing demo_world (path_str (Path ''docs'')) = [''notes.txt'', ''mp3''] \<and>
   process_folder demo_env demo_world ''docs'' ''base'' ''auto'' =
     (Inr (''No audio/video files found in folder'', None), demo_world)"
proof -
  have h: "\<forall>n \<in> set (listing demo_world (path_str (Path ''docs''))). \<forall>ext \<in> set all_exts. \<not> endswith (lower n) ext"
    by code_simp
  have "listing demo_world (path_str (Path ''docs'')) = [''notes.txt'', ''mp3'']"
    by code_simp
  then show ?thesis
    using h empty_input_gives_message_only [of demo_env demo_world "''base''" "''auto''" "''docs''"]
    by simp
qed

text \<open>
  Claim C5. A path is a video exactly when the suffix of its last component, lowered by
  \<^verbatim>\<open>str.lower\<close>, is one of \<open>video_exts\<close>. Wherever \<^verbatim>\<open>str.lower\<close> is the lowering of
  the ASCII letters on ASCII text, as Python's is, \<^verbatim>\<open>CLIP.MP4\<close> and \<^verbatim>\<open>clip.mp4\<close> are both
  videos, and two ASCII paths that differ in letter case only are classified alike. For a
  video, every call of the recogniser comes right after the extraction command was run on
  the path, and is made on the output file of that command; the command is run as soon as
  the model loads and the temporary file is created. For any other path no command is run,
  and the recogniser is called on the path itself.
\<close>

theorem video_classification_ignores_case:
  "(is_video env p \<longleftrightarrow> str_lower env (path_suffix (Path p)) \<in> set video_exts) \<and>
   ((\<forall>s. (\<forall>c\<in>set s. is_ascii c) \<longrightarrow> str_lower env s = lower s) \<longrightarrow>
      is_video env ''CLIP.MP4'' \<and> is_video env ''clip.mp4'' \<and>
      ((\<forall>c\<in>set p. is_ascii c) \<longrightarrow>
         (is_video env p \<longleftrightarrow> lower (path_suffix (Path p)) \<in> set video_exts) \<and>
         (\<forall>q. (\<forall>c\<in>set q. is_ascii c) \<and> lower q = lower p \<longrightarrow>
              is_video env q = is_video env p))) \<and>
   (let evs = drop (length (trace w)) (trace (snd (transcribe_file env w p m l)))
    in (is_video env p \<longrightarrow>
          (\<forall>a h. TranscribeCall a h \<in> set evs \<longrightarrow>
             take 3 evs = [LoadModel m, RunCommand (ffmpeg_cmd p a), TranscribeCall a h]) \<and>
          (load_model env m = Inr model \<and> fst (NamedTemporaryFile env w ''.wav'') = Inr tmp \<longrightarrow>
             take 2 evs = [LoadModel m, RunCommand (ffmpeg_cmd p tmp)])) \<and>
       (\<not> is_video env p \<longrightarrow>
          (\<forall>c. RunCommand c \<notin> set evs) \<and>
          (\<forall>a h. TranscribeCall a h \<in> set evs \<longrightarrow> a = p) \<and>
          (load_model env m = Inr model \<longrightarrow>
             evs = [LoadModel m, TranscribeCall p (if l = ''auto'' then None else Some l)] \<and>
             fst (transcribe_file env w p m l) =
               model_transcribe env model (disk w) p (if l = ''auto'' then None else Some l))))"
proof -
  let ?evs = "drop (length (trace w)) (trace (snd (transcribe_file env w p m l)))"
  let ?h = "if l = ''auto'' then None else Some l"
  have names: "is_video env ''CLIP.MP4'' \<and> is_video env ''clip.mp4''"
    if agree: "\<forall>s. (\<forall>c\<in>set s. is_ascii c) \<longrightarrow> str_lower env s = lower s"
  proof -
    have "\<forall>c\<in>set ''CLIP.MP4''. is_ascii c" and "\<forall>c\<in>set ''clip.mp4''. is_ascii c"
      by (simp_all add: is_ascii_def)
    moreover have "lower (path_suffix (Path ''CLIP.MP4'')) \<in> set video_exts"
      and "lower (path_suffix (Path ''clip.mp4'')) \<in> set video_exts"
      by code_simp+
    ultimately show ?thesis using is_video_ascii [OF agree] by blast
  qed
  have ascii: "(is_video env p \<longleftrightarrow> lower (path_suffix (Path p)) \<in> set video_exts) \<and>
      (\<forall>q. (\<forall>c\<in>set q. is_ascii c) \<and> lower q = lower p \<longrightarrow> is_video env q = is_video env p)"
    if agree: "\<forall>s. (\<forall>c\<in>set s. is_ascii c) \<longrightarrow> str_lower env s = lower s"
      and p: "\<forall>c\<in>set p. is_ascii c"
    using is_video_ascii [OF agree p] is_video_ascii_case [OF agree p] by blast
  have classified: "is_video env p \<longleftrightarrow> str_lower env (path_suffix (Path p)) \<in> set video_exts"
    by (simp add: is_video_def)
  obtain evs where tr: "trace (snd (transcribe_file env w p m l)) = trace w @ LoadModel m # evs"
    and shape: "evs = [] \<or>
      (\<not> is_video env p \<and> evs = [TranscribeCall p ?h]) \<or>
      (is_video env p \<and> (\<exists>tmp. disk w tmp = None \<and>
         (evs = [RunCommand (ffmpeg_cmd p tmp)] \<or>
          evs = [RunCommand (ffmpeg_cmd p tmp), TranscribeCall tmp ?h] \<or>
          (tmp \<noteq> p \<and> fst (NamedTemporaryFile env w ''.wav'') = Inr tmp \<and>
           evs = [RunCommand (ffmpeg_cmd p tmp), TranscribeCall tmp ?h, UnlinkCall tmp]))))"
    using transcribe_file_events [of env w p m l] by blast
  have new: "?evs = LoadModel m # evs"
    using tr by simp
  have video_calls: "take 3 ?evs = [LoadModel m, RunCommand (ffmpeg_cmd p a), TranscribeCall a h]"
    if "is_video env p" "TranscribeCall a h \<in> set ?evs" for a h
    using that shape unfolding new by auto
  have video_run: "take 2 ?evs = [LoadModel m, RunCommand (ffmpeg_cmd p tmp)]"
    if v: "is_video env p" and ld: "load_model env m = Inr model"
      and nt: "fst (NamedTemporaryFile env w ''.wav'') = Inr tmp"
  proof -
    let ?w0 = "log_event (LoadModel m) w"
    obtain r0 wn where ntf: "NamedTemporaryFile env ?w0 ''.wav'' = (r0, wn)"
      by (cases "NamedTemporaryFile env ?w0 ''.wav''")
    have r0: "r0 = Inr tmp"
      using nt ntf by (simp add: NamedTemporaryFile_log)
    obtain r1 w1 where ex: "extract_audio env ?w0 p = (r1, w1)"
      by (cases "extract_audio env ?w0 p")
    have tr1: "trace w1 = trace w @ [LoadModel m, RunCommand (ffmpeg_cmd p tmp)]"
      using extract_audio_runs [OF ntf [unfolded r0], of p] ex by (simp add: log_event_def)
    have "\<exists>more. trace (snd (transcribe_file env w p m l)) = trace w1 @ more"
      using v ld ex
      by (cases r1) (auto simp: transcribe_file_def Let_def log_event_def os_unlink_def split: sum.splits)
    then obtain more where "trace (snd (transcribe_file env w p m l)) =
        trace w @ [LoadModel m, RunCommand (ffmpeg_cmd p tmp)] @ more"
      using tr1 by auto
    then show ?thesis by simp
  qed
  have audio: "(\<forall>c. RunCommand c \<notin> set ?evs) \<and> (\<forall>a h. TranscribeCall a h \<in> set ?evs \<longrightarrow> a = p)"
    if "\<not> is_video env p"
    using that shape unfolding new by auto
  have audio_run: "?evs = [LoadModel m, TranscribeCall p ?h] \<and>
      fst (transcribe_file env w p m l) = model_transcribe env model (disk w) p ?h"
    if "\<not> is_video env p" "load_model env m = Inr model"
    using that by (simp add: transcribe_file_audio log_event_def)
  have traces: "(is_video env p \<longrightarrow>
          (\<forall>a h. TranscribeCall a h \<in> set ?evs \<longrightarrow>
             take 3 ?evs = [LoadModel m, RunCommand (ffmpeg_cmd p a), TranscribeCall a h]) \<and>
          (load_model env m = Inr model \<and> fst (NamedTemporaryFile env w ''.wav'') = Inr tmp \<longrightarrow>
             take 2 ?evs = [LoadModel m, RunCommand (ffmpeg_cmd p tmp)])) \<and>
       (\<not> is_video env p \<longrightarrow>
          (\<forall>c. RunCommand c \<notin> set ?evs) \<and>
          (\<forall>a h. TranscribeCall a h \<in> set ?evs \<longrightarrow> a = p) \<and>
          (load_model env m = Inr model \<longrightarrow>
             ?evs = [LoadModel m, TranscribeCall p ?h] \<and>
             fst (transcribe_file env w p m l) = model_transcribe env model (disk w) p ?h))"
    using video_calls video_run audio audio_run by blast
  show ?thesis
    unfolding Let_def
    using classified names ascii traces by blast
qed

theorem video_classification_ignores_case_witness:
  "is_video demo_env ''CLIP.MP4'' \<and> is_video demo_env ''clip.mp4'' \<and>
   is_video demo_env ''clip.mp4'' = is_video demo_env ''CLIP.MP4'' \<and>
   \<not> is_video demo_env ''speech.wav'' \<and>
   is_video demo_env [CHR ''a'', CHR ''.'', CHR ''m'', CHR 0xE2, CHR 0x84, CHR 0xAA, CHR ''v''] \<and>
   take 3 (drop (length (trace demo_world))
             (trace (snd (transcribe_file demo_env demo_world ''CLIP.MP4'' ''base'' ''auto'')))) =
     [LoadModel ''base'', RunCommand (ffmpeg_cmd ''CLIP.MP4'' ''/tmp/tmpx.wav''),
      TranscribeCall ''/tmp/tmpx.wav'' None] \<and>
   drop (length (trace demo_world))
     (trace (snd (transcribe_file demo_env demo_world ''speech.wav'' ''base'' ''auto''))) =
     [LoadModel ''base'', TranscribeCall ''speech.wav'' None] \<and>
   fst (transcribe_file demo_env demo_world ''speech.wav'' ''base'' ''auto'') = Inr ''hello''"
proof -
  note V = video_classification_ignores_case [where p = "''CLIP.MP4''" and w = demo_world
      and env = demo_env and m = "''base''" and l = "''auto''" and model = "''base''"
      and tmp = "''/tmp/tmpx.wav''", unfolded Let_def]
  note A = video_classification_ignores_case [where p = "''speech.wav''" and w = demo_world
      and env = demo_env and m = "''base''" and l = "''auto''" and model = "''base''"
      and tmp = "''/tmp/tmpx.wav''", unfolded Let_def]
  have agree: "\<forall>s. (\<forall>c\<in>set s. is_ascii c) \<longrightarrow> str_lower demo_env s = lower s"
    using demo_str_lower_ascii by (simp add: demo_env_def)
  have plain: "\<forall>c\<in>set ''CLIP.MP4''. is_ascii c"
    by (simp add: is_ascii_def)
  have other: "(\<forall>c\<in>set ''clip.mp4''. is_ascii c) \<and> lower ''clip.mp4'' = lower ''CLIP.MP4''"
    by code_simp
  note V2 = V [THEN conjunct2, THEN conjunct1, THEN mp, OF agree]
  have v: "is_video demo_env ''CLIP.MP4''" by (rule V2 [THEN conjunct1])
  have v': "is_video demo_env ''clip.mp4''" by (rule V2 [THEN conjunct2, THEN conjunct1])
  have same: "is_video demo_env ''clip.mp4'' = is_video demo_env ''CLIP.MP4''"
    by (rule V2 [THEN conjunct2, THEN conjunct2, THEN mp, OF plain, THEN conjunct2,
          rule_format, OF other])
  note V4 = V [THEN conjunct2, THEN conjunct2, THEN conjunct1, THEN mp, OF v]
  note A4 = A [THEN conjunct2, THEN conjunct2, THEN conjunct2, THEN mp]
  have a: "\<not> is_video demo_env ''speech.wav''" by code_simp
  have kelvin: "is_video demo_env [CHR ''a'', CHR ''.'', CHR ''m'', CHR 0xE2, CHR 0x84, CHR 0xAA, CHR ''v'']"
    by code_simp
  have called: "TranscribeCall ''/tmp/tmpx.wav'' None \<in>
      set (drop (length (trace demo_world))
             (trace (snd (transcribe_file demo_env demo_world ''CLIP.MP4'' ''base'' ''auto''))))"
    by code_simp
  have loads: "load_model demo_env ''base'' = Inr ''base''" by code_simp
  have heard: "model_transcribe demo_env ''base'' (disk demo_world) ''speech.wav'' None = Inr ''hello''"
    by code_simp
  have "take 3 (drop (length (trace demo_world))
             (trace (snd (transcribe_file demo_env demo_world ''CLIP.MP4'' ''base'' ''auto'')))) =
     [LoadModel ''base'', RunCommand (ffmpeg_cmd ''CLIP.MP4'' ''/tmp/tmpx.wav''),
      TranscribeCall ''/tmp/tmpx.wav'' None]"
    by (rule V4 [THEN conjunct1, rule_format, OF called])
  moreover have "drop (length (trace demo_world))
     (trace (snd (transcribe_file demo_env demo_world ''speech.wav'' ''base'' ''auto''))) =
     [LoadModel ''base'', TranscribeCall ''speech.wav'' None] \<and>
   fst (transcribe_file demo_env demo_world ''speech.wav'' ''base'' ''auto'') = Inr ''hello''"
    using A4 [OF a, THEN conjunct2, THEN conjunct2, THEN mp, OF loads] heard by simp
  ultimately show ?thesis using v v' same a kelvin by simp
qed

text \<open>
  Claim C6. The report \<open>process_files\<close> returns is the entries of the results of its
  files, in the order of the files, joined by a line end. The entry of a result is the line
  \<^verbatim>\<open>=== name ===\<close>, where the name is the last component of the path, then the text, or
  \<^verbatim>\<open>Error: \<close> and the description of the exception, then a line end. So each entry but
  the last is followed by an empty line: the report with one more line end is every entry
  followed by one.
\<close>

theorem report_is_entries_joined:
  assumes "process_files env w files m l = (Inr (report, Some p), w')"
  shows
    "let rs = item_results env m l
                (map (\<lambda>file. (upload_name file, path_name (Path (upload_name file)))) files) w;
         entries = map (\<lambda>(shown, r). ''=== '' @ shown @ '' ===\<newline>'' @
                          (case r of Inr text \<Rightarrow> text | Inl e \<Rightarrow> ''Error: '' @ str e) @
                          ''\<newline>'') rs
     in map fst rs = map (\<lambda>file. path_name (Path (upload_name file))) files \<and>
        report = join ''\<newline>'' entries \<and>
        report @ ''\<newline>'' = concat (map (\<lambda>entry. entry @ ''\<newline>'') entries)"
proof -
  let ?items = "map (\<lambda>file. (upload_name file, path_name (Path (upload_name file)))) files"
  let ?rs = "item_results env m l ?items w"
  let ?entries = "map (\<lambda>(shown, r). ''=== '' @ shown @ '' ===\<newline>'' @
                          (case r of Inr text \<Rightarrow> text | Inl e \<Rightarrow> ''Error: '' @ str e) @
                          ''\<newline>'') ?rs"
  have ne: "files \<noteq> []" using assms by (auto simp: process_files_def)
  have names: "map fst ?rs = map (\<lambda>file. path_name (Path (upload_name file))) files"
    by (simp add: item_results_names comp_def)
  have entries: "fst (transcribe_items env m l ?items [] w) = ?entries"
    using items_results [of env m l ?items w] by (simp add: render_result_def)
  obtain results w1 where loop: "transcribe_items env m l ?items [] w = (results, w1)"
    by (cases "transcribe_items env m l ?items [] w")
  have "save_report env w1 (join ''\<newline>'' results) = (Inr (report, Some p), w')"
    using assms ne by (simp add: process_files_def loop)
  from save_report_facts(3) [OF this] have "report = join ''\<newline>'' results" by simp
  then have report: "report = join ''\<newline>'' ?entries"
    using entries loop by simp
  have "length ?rs = length files"
    using arg_cong [OF names, of length] by simp
  then have "?entries \<noteq> []" using ne by auto
  then have "join ''\<newline>'' ?entries @ ''\<newline>'' = concat (map (\<lambda>entry. entry @ ''\<newline>'') ?entries)"
    by (rule join_blank)
  then show ?thesis
    unfolding Let_def using names report by simp
qed

theorem report_is_entries_joined_witness:
  "item_results demo_env ''base'' ''en'' [(''dir/CLIP.MP4'', ''CLIP.MP4''), (''speech.wav'', ''speech.wav'')] demo_world =
     [(''CLIP.MP4'', Inl (Exn ''no audio'')), (''speech.wav'', Inr ''hello'')] \<and>
   fst (process_files demo_env demo_world [Upload ''dir/CLIP.MP4'', Upload ''speech.wav''] ''base'' ''en'') =
     Inr (''=== CLIP.MP4 ===\<newline>Error: no audio\<newline>\<newline>=== speech.wav ===\<newline>hello\<newline>'',
          Some ''/tmp/tmpxx.txt'') \<and>
   ''=== CLIP.MP4 ===\<newline>Error: no audio\<newline>\<newline>=== speech.wav ===\<newline>hello\<newline>'' @ ''\<newline>'' =
     concat (map (\<lambda>entry. entry @ ''\<newline>'')
       [''=== CLIP.MP4 ===\<newline>Error: no audio\<newline>'', ''=== speech.wav ===\<newline>hello\<newline>''])"
proof -
  let ?files = "[Upload ''dir/CLIP.MP4'', Upload ''speech.wav'']"
  let ?items = "[(''dir/CLIP.MP4'', ''CLIP.MP4''), (''speech.wav'', ''speech.wav'')]"
  let ?report = "''=== CLIP.MP4 ===\<newline>Error: no audio\<newline>\<newline>=== speech.wav ===\<newline>hello\<newline>''"
  let ?w' = "snd (process_files demo_env demo_world ?files ''base'' ''en'')"
  have items: "map (\<lambda>file. (upload_name file, path_name (Path (upload_name file)))) ?files = ?items"
    by code_simp
  have rs: "item_results demo_env ''base'' ''en'' ?items demo_world =
     [(''CLIP.MP4'', Inl (Exn ''no audio'')), (''speech.wav'', Inr ''hello'')]"
    by code_simp
  have run: "fst (process_files demo_env demo_world ?files ''base'' ''en'') = Inr (?report, Some ''/tmp/tmpxx.txt'')"
    by code_simp
  then have "process_files demo_env demo_world ?files ''base'' ''en'' = (Inr (?report, Some ''/tmp/tmpxx.txt''), ?w')"
    by (metis prod.collapse)
  note T = report_is_entries_joined [OF this, unfolded Let_def items rs]
  show ?thesis using T rs run by simp
qed

text \<open>
  Claim C7. Whenever \<open>process_files\<close> or \<open>process_folder\<close> returns a report and the
  name of a report file, the content of that file in the resulting world is the returned
  text.
\<close>

theorem report_file_holds_returned_text:
  "(process_files env w files m l = (Inr (report, Some p), w') \<longrightarrow> disk w' p = Some report) \<and>
   (process_folder env w folder m l = (Inr (report, Some p), w') \<longrightarrow> disk w' p = Some report)"
proof (intro conjI impI)
  assume a: "process_files env w files m l = (Inr (report, Some p), w')"
  then have ne: "files \<noteq> []" by (auto simp: process_files_def)
  obtain results w1 where
    loop: "transcribe_items env m l (map (\<lambda>file. (upload_name file, path_name (Path (upload_name file)))) files) [] w = (results, w1)"
    by (cases "transcribe_items env m l (map (\<lambda>file. (upload_name file, path_name (Path (upload_name file)))) files) [] w")
  have "save_report env w1 (join ''\<newline>'' results) = (Inr (report, Some p), w')"
    using a ne by (simp add: process_files_def loop)
  from save_report_facts(3) [OF this] show "disk w' p = Some report" by simp
next
  assume a: "process_folder env w folder m l = (Inr (report, Some p), w')"
  then have ne: "folder \<noteq> []" "folder_files w folder \<noteq> []"
    by (auto simp: process_folder_def Let_def split: if_splits)
  obtain results w1 where
    loop: "transcribe_items env m l (map (\<lambda>file_path. (path_str file_path, path_name file_path)) (folder_files w folder)) [] w = (results, w1)"
    by (cases "transcribe_items env m l (map (\<lambda>file_path. (path_str file_path, path_name file_path)) (folder_files w folder)) [] w")
  have "save_report env w1 (join ''\<newline>'' results) = (Inr (report, Some p), w')"
    using a ne by (simp add: process_folder_def Let_def loop)
  from save_report_facts(3) [OF this] show "disk w' p = Some report" by simp
qed

theorem report_file_holds_returned_text_witness:
  "fst (process_files demo_env demo_world [Upload ''speech.wav''] ''base'' ''auto'') =
     Inr (''=== speech.wav ===\<newline>hello\<newline>'', Some ''/tmp/tmpx.txt'') \<and>
   disk (snd (process_files demo_env demo_world [Upload ''speech.wav''] ''base'' ''auto'')) ''/tmp/tmpx.txt'' =
     Some ''=== speech.wav ===\<newline>hello\<newline>''"
proof -
  have run: "fst (process_files demo_env demo_world [Upload ''speech.wav''] ''base'' ''auto'') =
     Inr (''=== speech.wav ===\<newline>hello\<newline>'', Some ''/tmp/tmpx.txt'')"
    by code_simp
  then have "process_files demo_env demo_world [Upload ''speech.wav''] ''base'' ''auto'' =
     (Inr (''=== speech.wav ===\<newline>hello\<newline>'', Some ''/tmp/tmpx.txt''),
      snd (process_files demo_env demo_world [Upload ''speech.wav''] ''base'' ''auto''))"
    by (metis prod.collapse)
  then show ?thesis
    using run report_file_holds_returned_text [of demo_env demo_world "[Upload ''speech.wav'']" "''base''" "''auto''"
        "''=== speech.wav ===\<newline>hello\<newline>''" "''/tmp/tmpx.txt''"
        "snd (process_files demo_env demo_world [Upload ''speech.wav''] ''base'' ''auto'')"]
    by simp
qed

text \<open>
  Claim C8. Every call of the recogniser that \<open>transcribe_file\<close> makes, and every one
  that a whole run of \<open>process_files\<close> makes, carries the hint \<open>None\<close> when the
  language is \<^verbatim>\<open>auto\<close> and the language itself otherwise. For a file that is not a
  video and a model that loads, the result of \<open>transcribe_file\<close> is what the recogniser
  returns for that hint.
\<close>

theorem language_hint_none_iff_auto:
  "(\<forall>a h. TranscribeCall a h \<in> set (drop (length (trace w)) (trace (snd (transcribe_file env w p m l)))) \<longrightarrow>
      (h = None \<longleftrightarrow> l = ''auto'') \<and> (l \<noteq> ''auto'' \<longrightarrow> h = Some l)) \<and>
   (\<forall>a h. TranscribeCall a h \<in> set (drop (length (trace w)) (trace (snd (process_files env w files m l)))) \<longrightarrow>
      (h = None \<longleftrightarrow> l = ''auto'') \<and> (l \<noteq> ''auto'' \<longrightarrow> h = Some l)) \<and>
   (\<not> is_video env p \<and> load_model env m = Inr model \<longrightarrow>
      fst (transcribe_file env w p m l) =
        model_transcribe env model (disk w) p (if l = ''auto'' then None else Some l))"
proof (intro conjI)
  obtain evs where evs: "trace (snd (transcribe_file env w p m l)) = trace w @ evs"
    "\<forall>a h. TranscribeCall a h \<in> set evs \<longrightarrow> h = (if l = ''auto'' then None else Some l)"
    using transcribe_file_new_events [of env w p m l] by blast
  show "\<forall>a h. TranscribeCall a h \<in> set (drop (length (trace w)) (trace (snd (transcribe_file env w p m l)))) \<longrightarrow>
      (h = None \<longleftrightarrow> l = ''auto'') \<and> (l \<noteq> ''auto'' \<longrightarrow> h = Some l)"
    unfolding new_events_eq [OF evs(1)] using hint_forms [OF evs(2)] by blast
next
  show "\<forall>a h. TranscribeCall a h \<in> set (drop (length (trace w)) (trace (snd (process_files env w files m l)))) \<longrightarrow>
      (h = None \<longleftrightarrow> l = ''auto'') \<and> (l \<noteq> ''auto'' \<longrightarrow> h = Some l)"
  proof (cases "files = []")
    case True
    then show ?thesis by (simp add: process_files_def)
  next
    case False
    let ?items = "map (\<lambda>file. (upload_name file, path_name (Path (upload_name file)))) files"
    obtain results w1 where loop: "transcribe_items env m l ?items [] w = (results, w1)"
      by (cases "transcribe_items env m l ?items [] w")
    obtain evs where evs: "trace w1 = trace w @ evs"
      "\<forall>a h. TranscribeCall a h \<in> set evs \<longrightarrow> h = (if l = ''auto'' then None else Some l)"
      using items_new_events [of env m l ?items "[]" w] by (auto simp: loop)
    obtain r w2 where save: "save_report env w1 (join ''\<newline>'' results) = (r, w2)"
      by (cases "save_report env w1 (join ''\<newline>'' results)")
    have "snd (process_files env w files m l) = w2"
      using False by (simp add: process_files_def loop save)
    then have "trace (snd (process_files env w files m l)) = trace w @ evs"
      using save_report_facts(1) [OF save] evs(1) by simp
    from new_events_eq [OF this] show ?thesis using hint_forms [OF evs(2)] by simp
  qed
next
  show "\<not> is_video env p \<and> load_model env m = Inr model \<longrightarrow>
      fst (transcribe_file env w p m l) =
        model_transcribe env model (disk w) p (if l = ''auto'' then None else Some l)"
    by (simp add: transcribe_file_audio)
qed

theorem language_hint_none_iff_auto_witness:
  "TranscribeCall ''speech.wav'' None \<in>
     set (drop (length (trace demo_world)) (trace (snd (transcribe_file demo_env demo_world ''speech.wav'' ''base'' ''auto'')))) \<and>
   TranscribeCall ''speech.wav'' (Some ''en'') \<in>
     set (drop (length (trace demo_world)) (trace (snd (process_files demo_env demo_world [Upload ''speech.wav''] ''base'' ''en'')))) \<and>
   ((None :: string option) = None) = (''auto'' = ''auto'') \<and>
   Some ''en'' = Some ''en'' \<and>
   fst (transcribe_file demo_env demo_world ''speech.wav'' ''base'' ''auto'') = Inr ''hello''"
proof -
  note T = language_hint_none_iff_auto [of demo_world demo_env "''speech.wav''" "''base''" "''auto''" _ "''base''"]
  note U = language_hint_none_iff_auto [of demo_world demo_env _ "''base''" "''en''" "[Upload ''speech.wav'']"]
  have m1: "TranscribeCall ''speech.wav'' None \<in>
     set (drop (length (trace demo_world)) (trace (snd (transcribe_file demo_env demo_world ''speech.wav'' ''base'' ''auto''))))"
    by code_simp
  have m2: "TranscribeCall ''speech.wav'' (Some ''en'') \<in>
     set (drop (length (trace demo_world)) (trace (snd (process_files demo_env demo_world [Upload ''speech.wav''] ''base'' ''en''))))"
    by code_simp
  have h: "\<not> is_video demo_env ''speech.wav'' \<and> load_model demo_env ''base'' = Inr ''base''"
    by code_simp
  have r: "model_transcribe demo_env ''base'' (disk demo_world) ''speech.wav'' None = Inr ''hello''"
    by code_simp
  have "fst (transcribe_file demo_env demo_world ''speech.wav'' ''base'' ''auto'') = Inr ''hello''"
    using T [THEN conjunct2, THEN conjunct2, rule_format, OF h] r by simp
  then show ?thesis
    using m1 m2 T [THEN conjunct1, rule_format, OF m1] U [THEN conjunct2, THEN conjunct1, rule_format, OF m2]
    by simp
qed

text \<open>
  Claim C9, as amended. \<open>extract_audio\<close> never reads the return code: once the
  temporary file is created and the command has run to its end, it returns the name of
  the temporary file whatever the return code is and whatever the command left in the
  file. For a video whose model loads, the recogniser is then called on that file, and
  when it raises, its exception is the one \<open>transcribe_file\<close> raises: a command that
  failed shows only there. A command that cannot be started is the one failure that shows
  at the extraction step: the exception of \<^verbatim>\<open>subprocess.run\<close> leaves \<open>extract_audio\<close>
  and \<open>transcribe_file\<close>, and the recogniser is not called.
\<close>

theorem extract_audio_ignores_return_code:
  assumes "fst (NamedTemporaryFile env w ''.wav'') = Inr tmp"
  shows
    "(\<forall>returncode out.
        subprocess_run env ((disk w)(tmp \<mapsto> [])) (ffmpeg_cmd p tmp) = Inr (returncode, out) \<longrightarrow>
        fst (extract_audio env w p) = Inr tmp \<and>
        disk (snd (extract_audio env w p)) = (disk w)(tmp := out) \<and>
        (is_video env p \<and> load_model env m = Inr model \<longrightarrow>
           TranscribeCall tmp (if l = ''auto'' then None else Some l)
             \<in> set (trace (snd (transcribe_file env w p m l))) \<and>
           (\<forall>e. model_transcribe env model ((disk w)(tmp := out)) tmp
                   (if l = ''auto'' then None else Some l) = Inl e \<longrightarrow>
                fst (transcribe_file env w p m l) = Inl e))) \<and>
     (\<forall>e. subprocess_run env ((disk w)(tmp \<mapsto> [])) (ffmpeg_cmd p tmp) = Inl e \<longrightarrow>
        fst (extract_audio env w p) = Inl e \<and>
        (is_video env p \<and> load_model env m = Inr model \<longrightarrow>
           fst (transcribe_file env w p m l) = Inl e \<and>
           drop (length (trace w)) (trace (snd (transcribe_file env w p m l))) =
             [LoadModel m, RunCommand (ffmpeg_cmd p tmp)]))"
  using extract_audio_completed [OF assms, of p _ _ m model l]
    extract_audio_not_started [OF assms, of p _ m model l]
  by blast

theorem extract_audio_ignores_return_code_witness:
  "subprocess_run demo_env ((disk demo_world)(''/tmp/tmpx.wav'' \<mapsto> []))
       (ffmpeg_cmd ''missing.mp4'' ''/tmp/tmpx.wav'') = Inr (1, Some []) \<and>
   fst (extract_audio demo_env demo_world ''missing.mp4'') = Inr ''/tmp/tmpx.wav'' \<and>
   fst (transcribe_file demo_env demo_world ''missing.mp4'' ''base'' ''auto'') = Inl (Exn ''no audio'') \<and>
   fst (extract_audio no_ffmpeg_env demo_world ''clip.mp4'') =
     Inl (Exn (''[Errno 2] No such file or directory: '' @ [CHR 0x27] @ ''ffmpeg'' @ [CHR 0x27])) \<and>
   fst (transcribe_file no_ffmpeg_env demo_world ''clip.mp4'' ''base'' ''auto'') =
     Inl (Exn (''[Errno 2] No such file or directory: '' @ [CHR 0x27] @ ''ffmpeg'' @ [CHR 0x27]))"
proof -
  have tmp: "fst (NamedTemporaryFile demo_env demo_world ''.wav'') = Inr ''/tmp/tmpx.wav''"
    by code_simp
  have failed: "subprocess_run demo_env ((disk demo_world)(''/tmp/tmpx.wav'' \<mapsto> []))
       (ffmpeg_cmd ''missing.mp4'' ''/tmp/tmpx.wav'') = Inr (1, Some [])"
    by code_simp
  note T = extract_audio_ignores_return_code [OF tmp, where p = "''missing.mp4''" and m = "''base''"
      and model = "''base''" and l = "''auto''", THEN conjunct1, rule_format, OF failed]
  have h: "is_video demo_env ''missing.mp4'' \<and> load_model demo_env ''base'' = Inr ''base''"
    by code_simp
  have raises: "model_transcribe demo_env ''base'' ((disk demo_world)(''/tmp/tmpx.wav'' := Some [])) ''/tmp/tmpx.wav''
      (if ''auto'' = ''auto'' then None else Some ''auto'') = Inl (Exn ''no audio'')"
    by code_simp
  have late: "fst (transcribe_file demo_env demo_world ''missing.mp4'' ''base'' ''auto'') = Inl (Exn ''no audio'')"
    by (rule T [THEN conjunct2, THEN conjunct2, THEN mp, OF h, THEN conjunct2, rule_format, OF raises])
  have tmp': "fst (NamedTemporaryFile no_ffmpeg_env demo_world ''.wav'') = Inr ''/tmp/tmpx.wav''"
    by code_simp
  have absent: "subprocess_run no_ffmpeg_env ((disk demo_world)(''/tmp/tmpx.wav'' \<mapsto> []))
       (ffmpeg_cmd ''clip.mp4'' ''/tmp/tmpx.wav'') =
     Inl (Exn (''[Errno 2] No such file or directory: '' @ [CHR 0x27] @ ''ffmpeg'' @ [CHR 0x27]))"
    by code_simp
  note N = extract_audio_ignores_return_code [OF tmp', where p = "''clip.mp4''" and m = "''base''"
      and model = "''base''" and l = "''auto''", THEN conjunct2, rule_format, OF absent]
  have h': "is_video no_ffmpeg_env ''clip.mp4'' \<and> load_model no_ffmpeg_env ''base'' = Inr ''base''"
    by code_simp
  have early: "fst (transcribe_file no_ffmpeg_env demo_world ''clip.mp4'' ''base'' ''auto'') =
     Inl (Exn (''[Errno 2] No such file or directory: '' @ [CHR 0x27] @ ''ffmpeg'' @ [CHR 0x27]))"
    by (rule N [THEN conjunct2, THEN mp, OF h', THEN conjunct1])
  show ?thesis
    using failed T [THEN conjunct1] late N [THEN conjunct1] early by simp
qed

text \<open>
  Claim C9 as it was stated fails where \<^verbatim>\<open>ffmpeg\<close> cannot be started: for the video
  \<^verbatim>\<open>clip.mp4\<close> the temporary file is created, \<^verbatim>\<open>subprocess.run\<close> raises, and so do
  \<open>extract_audio\<close> and \<open>transcribe_file\<close>, at the extraction step: the trace ends with
  the command, the recogniser is never called, and the temporary file is left behind.
\<close>

theorem extraction_raises_when_command_cannot_start:
  "is_video no_ffmpeg_env ''clip.mp4'' \<and>
   fst (NamedTemporaryFile no_ffmpeg_env demo_world ''.wav'') = Inr ''/tmp/tmpx.wav'' \<and>
   fst (extract_audio no_ffmpeg_env demo_world ''clip.mp4'') \<noteq> Inr ''/tmp/tmpx.wav'' \<and>
   fst (extract_audio no_ffmpeg_env demo_world ''clip.mp4'') =
     Inl (Exn (''[Errno 2] No such file or directory: '' @ [CHR 0x27] @ ''ffmpeg'' @ [CHR 0x27])) \<and>
   fst (transcribe_file no_ffmpeg_env demo_world ''clip.mp4'' ''base'' ''auto'') =
     Inl (Exn (''[Errno 2] No such file or directory: '' @ [CHR 0x27] @ ''ffmpeg'' @ [CHR 0x27])) \<and>
   trace (snd (transcribe_file no_ffmpeg_env demo_world ''clip.mp4'' ''base'' ''auto'')) =
     [LoadModel ''base'', RunCommand (ffmpeg_cmd ''clip.mp4'' ''/tmp/tmpx.wav'')] \<and>
   disk (snd (transcribe_file no_ffmpeg_env demo_world ''clip.mp4'' ''base'' ''auto'')) ''/tmp/tmpx.wav'' = Some []"
  by code_simp

text \<open>
  Claim C10. \<open>transcribe_file\<close> unlinks only a path that differs from the path it was
  given: the temporary file \<open>extract_audio\<close> created, for a video, which did not exist
  before the call. For a path that is not a video it unlinks nothing and leaves the disk as
  it was. Every file on disk before \<open>transcribe_file\<close>, \<open>process_files\<close> or
  \<open>process_folder\<close> runs is on disk afterwards with the same content, the files given as
  input among them, and every path a run of \<open>process_files\<close> unlinks did not exist when
  the run began.
\<close>

theorem input_files_are_never_removed:
  "(\<forall>q. UnlinkCall q \<in> set (drop (length (trace w)) (trace (snd (transcribe_file env w p m l)))) \<longrightarrow>
      q \<noteq> p \<and> is_video env p \<and> disk w q = None \<and> fst (NamedTemporaryFile env w ''.wav'') = Inr q) \<and>
   (\<not> is_video env p \<longrightarrow>
      disk (snd (transcribe_file env w p m l)) = disk w \<and>
      (\<forall>q. UnlinkCall q \<notin> set (drop (length (trace w)) (trace (snd (transcribe_file env w p m l)))))) \<and>
   (\<forall>q c. disk w q = Some c \<longrightarrow> disk (snd (transcribe_file env w p m l)) q = Some c) \<and>
   (\<forall>q c. disk w q = Some c \<longrightarrow> disk (snd (process_files env w files m l)) q = Some c) \<and>
   (\<forall>q c. disk w q = Some c \<longrightarrow> disk (snd (process_folder env w folder m l)) q = Some c) \<and>
   (\<forall>q. UnlinkCall q \<in> set (drop (length (trace w)) (trace (snd (process_files env w files m l)))) \<longrightarrow>
      disk w q = None)"
proof (intro conjI)
  obtain evs where evs: "trace (snd (transcribe_file env w p m l)) = trace w @ evs"
    "\<forall>q. UnlinkCall q \<in> set evs \<longrightarrow>
        q \<noteq> p \<and> is_video env p \<and> disk w q = None \<and> fst (NamedTemporaryFile env w ''.wav'') = Inr q"
    using transcribe_file_new_events [of env w p m l] by blast
  show "\<forall>q. UnlinkCall q \<in> set (drop (length (trace w)) (trace (snd (transcribe_file env w p m l)))) \<longrightarrow>
      q \<noteq> p \<and> is_video env p \<and> disk w q = None \<and> fst (NamedTemporaryFile env w ''.wav'') = Inr q"
    unfolding new_events_eq [OF evs(1)] by (rule evs(2))
  show "\<not> is_video env p \<longrightarrow>
      disk (snd (transcribe_file env w p m l)) = disk w \<and>
      (\<forall>q. UnlinkCall q \<notin> set (drop (length (trace w)) (trace (snd (transcribe_file env w p m l)))))"
    unfolding new_events_eq [OF evs(1)] using evs(2)
    by (auto simp: transcribe_file_audio log_event_def split: sum.splits)
next
  show "\<forall>q c. disk w q = Some c \<longrightarrow> disk (snd (transcribe_file env w p m l)) q = Some c"
    using map_le_kept [OF transcribe_file_keeps] by blast
next
  show "\<forall>q c. disk w q = Some c \<longrightarrow> disk (snd (process_files env w files m l)) q = Some c"
    using map_le_kept [OF process_files_keeps] by blast
next
  show "\<forall>q c. disk w q = Some c \<longrightarrow> disk (snd (process_folder env w folder m l)) q = Some c"
    using map_le_kept [OF process_folder_keeps] by blast
next
  obtain evs where evs: "trace (snd (process_files env w files m l)) = trace w @ evs"
    "\<forall>q. UnlinkCall q \<in> set evs \<longrightarrow> disk w q = None"
    using process_files_unlinks [of env w files m l] by blast
  show "\<forall>q. UnlinkCall q \<in> set (drop (length (trace w)) (trace (snd (process_files env w files m l)))) \<longrightarrow>
      disk w q = None"
    unfolding new_events_eq [OF evs(1)] by (rule evs(2))
qed

theorem input_files_are_never_removed_witness:
  "UnlinkCall ''/tmp/tmpx.wav'' \<in>
     set (drop (length (trace demo_world))
            (trace (snd (transcribe_file demo_env demo_world ''clip.mp4'' ''base'' ''auto'')))) \<and>
   ''/tmp/tmpx.wav'' \<noteq> ''clip.mp4'' \<and> disk demo_world ''/tmp/tmpx.wav'' = None \<and>
   disk demo_world ''clip.mp4'' = Some ''words'' \<and>
   disk (snd (transcribe_file demo_env demo_world ''clip.mp4'' ''base'' ''auto'')) ''clip.mp4'' = Some ''words'' \<and>
   disk (snd (process_files demo_env demo_world [Upload ''clip.mp4'', Upload ''speech.wav''] ''base'' ''auto''))
     ''clip.mp4'' = Some ''words'' \<and>
   disk (snd (process_folder demo_env demo_world ''media'' ''base'' ''auto'')) ''clip.mp4'' = Some ''words'' \<and>
   disk (snd (transcribe_file demo_env demo_world ''speech.wav'' ''base'' ''auto'')) = disk demo_world"
proof -
  note T = input_files_are_never_removed [where w = demo_world and env = demo_env and p = "''clip.mp4''"
      and m = "''base''" and l = "''auto''" and files = "[Upload ''clip.mp4'', Upload ''speech.wav'']"
      and folder = "''media''"]
  note A = input_files_are_never_removed [where w = demo_world and env = demo_env and p = "''speech.wav''"
      and m = "''base''" and l = "''auto''" and files = "[]" and folder = "[]"]
  have unlinked: "UnlinkCall ''/tmp/tmpx.wav'' \<in>
     set (drop (length (trace demo_world))
            (trace (snd (transcribe_file demo_env demo_world ''clip.mp4'' ''base'' ''auto''))))"
    by code_simp
  have there: "disk demo_world ''clip.mp4'' = Some ''words''"
    by code_simp
  have audio: "\<not> is_video demo_env ''speech.wav''"
    by code_simp
  note T1 = T [THEN conjunct1, rule_format, OF unlinked]
  note T3 = T [THEN conjunct2, THEN conjunct2, THEN conjunct1, rule_format, OF there]
  note T4 = T [THEN conjunct2, THEN conjunct2, THEN conjunct2, THEN conjunct1, rule_format, OF there]
  note T5 = T [THEN conjunct2, THEN conjunct2, THEN conjunct2, THEN conjunct2, THEN conjunct1, rule_format, OF there]
  note A2 = A [THEN conjunct2, THEN conjunct1, THEN mp, OF audio]
  show ?thesis
    using unlinked there T1 T3 T4 T5 A2 by simp
qed

end
